theory Spec2Isabelle
  imports Complex_Main "HOL-Library.Word"
begin

chapter \<open>The model\<close>

section \<open>Numbers, dates and exceptions\<close>

text \<open>
  The agent (\<^verbatim>\<open>backend/crisisguard_agent_api.py\<close>) holds Python ints and floats in
  \<^verbatim>\<open>runtime_config\<close>. An int is unbounded. A float is a real number, or one of the
  three values \<^verbatim>\<open>inf\<close>, \<^verbatim>\<open>-inf\<close> and \<^verbatim>\<open>nan\<close> that the JSON parser and
  \<^verbatim>\<open>float(str)\<close> produce; the rounding of finite floats is not modelled, their
  range is.
\<close>

datatype pyfloat = Finite real | PosInf | NegInf | NaN

datatype num = PyInt int | PyFloat pyfloat

text \<open>
  Every \<^verbatim>\<open>raise\<close> of the modelled code is a value of \<open>exn\<close>: \<^verbatim>\<open>OverflowError\<close> and
  \<^verbatim>\<open>ValueError\<close> from the arithmetic of dates and floats, and one error for each
  file-system or library call that fails.
\<close>

datatype exn =
    OverflowError | ValueError
  | MkdirError | ReadError | EncryptError | WriteError | CopyError | UnlinkError | ExistsError

text \<open>
  The conversion of an int to a float, as \<^verbatim>\<open>float(i)\<close> and every mixed operation
  \<^verbatim>\<open>int / float\<close> make it, raises \<^verbatim>\<open>OverflowError\<close> from \<open>2^1024 - 2^970\<close> on: the
  first magnitude that rounds above the largest float \<open>2^1024 - 2^971\<close>.
\<close>

definition FLOAT_LIMIT :: int where
  "FLOAT_LIMIT = 2 ^ 1024 - 2 ^ 970"

definition int_to_float :: "int \<Rightarrow> exn + real" where
  "int_to_float i = (if \<bar>i\<bar> < FLOAT_LIMIT then Inr (real_of_int i) else Inl OverflowError)"

text \<open>
  \<^verbatim>\<open>max(a, thr)\<close> for a float constant \<open>a\<close> is \<open>thr\<close> when \<^verbatim>\<open>thr > a\<close> and \<open>a\<close>
  otherwise; the comparison is false for \<^verbatim>\<open>nan\<close>. \<open>None\<close> stands for the result
  \<^verbatim>\<open>inf\<close>.
\<close>

fun py_max :: "real \<Rightarrow> num \<Rightarrow> real option" where
  "py_max a (PyInt i) = Some (max a (real_of_int i))"
| "py_max a (PyFloat (Finite r)) = Some (max a r)"
| "py_max a (PyFloat PosInf) = None"
| "py_max a (PyFloat NegInf) = Some a"
| "py_max a (PyFloat NaN) = Some a"

text \<open>
  \<^verbatim>\<open>min(1.0, n / max(1.0, thr))\<close> for an int \<open>n\<close>.

  When \<open>thr\<close> is an int above 1, \<^verbatim>\<open>max\<close> returns that int and \<^verbatim>\<open>n / thr\<close> is the
  true division of two ints, which raises \<^verbatim>\<open>OverflowError\<close> when the quotient is
  beyond the float range. In every other case the divisor is a float and \<open>n\<close> is
  converted first. A quotient by \<^verbatim>\<open>inf\<close> is zero.
\<close>

definition ratio_overflows :: "int \<Rightarrow> num \<Rightarrow> bool" where
  "ratio_overflows n thr =
    (case thr of
       PyInt i \<Rightarrow> real_of_int FLOAT_LIMIT \<le> \<bar>real_of_int n\<bar> / max 1 (real_of_int i)
     | PyFloat f \<Rightarrow> FLOAT_LIMIT \<le> \<bar>n\<bar>)"

definition capped :: "real \<Rightarrow> real option \<Rightarrow> real" where
  "capped x d = (case d of None \<Rightarrow> 0 | Some d \<Rightarrow> min 1 (x / d))"

definition ratio_score :: "int \<Rightarrow> num \<Rightarrow> exn + real" where
  "ratio_score n thr =
    (if ratio_overflows n thr then Inl OverflowError
     else Inr (capped (real_of_int n) (py_max 1 thr)))"

text \<open>
  A \<^verbatim>\<open>datetime\<close> is an integer number of microseconds since 1970 (microseconds are
  its resolution), between \<^verbatim>\<open>datetime.min\<close> (year 1) and \<^verbatim>\<open>datetime.max\<close>
  (year 9999). A \<^verbatim>\<open>timedelta\<close> is an integer number of microseconds between
  \<^verbatim>\<open>timedelta.min\<close> and \<^verbatim>\<open>timedelta.max\<close> (a thousand million days either way).
\<close>

type_synonym datetime = int

definition DATETIME_MIN :: int where
  "DATETIME_MIN = - 62135596800000000"

definition DATETIME_MAX :: int where
  "DATETIME_MAX = 253402300799999999"

definition TIMEDELTA_MIN :: int where
  "TIMEDELTA_MIN = - 86399999913600000000"

definition TIMEDELTA_MAX :: int where
  "TIMEDELTA_MAX = 86399999999999999999"

definition round_half_even :: "real \<Rightarrow> int" where
  "round_half_even x =
    (if x - of_int \<lfloor>x\<rfloor> < 1 / 2 then \<lfloor>x\<rfloor>
     else if x - of_int \<lfloor>x\<rfloor> > 1 / 2 then \<lfloor>x\<rfloor> + 1
     else if even \<lfloor>x\<rfloor> then \<lfloor>x\<rfloor> else \<lfloor>x\<rfloor> + 1)"

text \<open>
  \<^verbatim>\<open>timedelta(seconds=n)\<close>: exact for an int, rounded to the nearest microsecond
  (ties to even) for a float. It raises \<^verbatim>\<open>OverflowError\<close> outside the range of
  \<^verbatim>\<open>timedelta\<close> and for an infinity, and \<^verbatim>\<open>ValueError\<close> for \<^verbatim>\<open>nan\<close>.
\<close>

definition timedelta_of :: "int \<Rightarrow> exn + int" where
  "timedelta_of us =
    (if TIMEDELTA_MIN \<le> us \<and> us \<le> TIMEDELTA_MAX then Inr us else Inl OverflowError)"

fun timedelta_seconds :: "num \<Rightarrow> exn + int" where
  "timedelta_seconds (PyInt n) = timedelta_of (n * 1000000)"
| "timedelta_seconds (PyFloat (Finite r)) = timedelta_of (round_half_even (r * 1000000))"
| "timedelta_seconds (PyFloat PosInf) = Inl OverflowError"
| "timedelta_seconds (PyFloat NegInf) = Inl OverflowError"
| "timedelta_seconds (PyFloat NaN) = Inl ValueError"

text \<open>
  \<^verbatim>\<open>now - delta\<close> on a \<^verbatim>\<open>datetime\<close> raises \<^verbatim>\<open>OverflowError\<close> when the result is not
  a \<^verbatim>\<open>datetime\<close>.
\<close>

definition datetime_sub :: "datetime \<Rightarrow> int \<Rightarrow> exn + datetime" where
  "datetime_sub now delta =
    (if DATETIME_MIN \<le> now - delta \<and> now - delta \<le> DATETIME_MAX then Inr (now - delta)
     else Inl OverflowError)"

section \<open>Sliding-window counter\<close>

text \<open>
  The deque \<^verbatim>\<open>events\<close> of a \<^verbatim>\<open>SlidingWindowCounter\<close> is a list: \<^verbatim>\<open>append\<close> adds at
  the end, \<^verbatim>\<open>popleft\<close> removes the head. The constructor raises what
  \<^verbatim>\<open>timedelta\<close> raises.
\<close>

record counter =
  window :: int
  events :: "datetime list"

definition new_counter :: "num \<Rightarrow> exn + counter" where
  "new_counter window_seconds =
    (case timedelta_seconds window_seconds of
       Inl x \<Rightarrow> Inl x
     | Inr d \<Rightarrow> Inr \<lparr>window = d, events = []\<rparr>)"

text \<open>
  \<^verbatim>\<open>_prune\<close> reads the clock once (\<open>now\<close>), computes the cutoff, which may raise,
  and pops the head while it is older than the cutoff.
\<close>

definition prune :: "datetime \<Rightarrow> counter \<Rightarrow> exn + counter" where
  "prune now c =
    (case datetime_sub now (window c) of
       Inl x \<Rightarrow> Inl x
     | Inr cutoff \<Rightarrow> Inr (c\<lparr>events := dropWhile (\<lambda>t. t < cutoff) (events c)\<rparr>))"

text \<open>
  \<^verbatim>\<open>add\<close> reads the clock twice: \<open>t\<close> is the reading that is appended,
  \<open>now\<close> the later reading inside \<^verbatim>\<open>_prune\<close>. When \<^verbatim>\<open>_prune\<close> raises the event
  has been appended. Both methods return the counter as they leave it.
\<close>

definition add :: "datetime \<Rightarrow> datetime \<Rightarrow> counter \<Rightarrow> (exn + unit) \<times> counter" where
  "add t now c =
    (case prune now (c\<lparr>events := events c @ [t]\<rparr>) of
       Inl x \<Rightarrow> (Inl x, c\<lparr>events := events c @ [t]\<rparr>)
     | Inr c' \<Rightarrow> (Inr (), c'))"

text \<open>\<^verbatim>\<open>count\<close> prunes and returns the length.\<close>

definition count :: "datetime \<Rightarrow> counter \<Rightarrow> (exn + nat) \<times> counter" where
  "count now c =
    (case prune now c of
       Inl x \<Rightarrow> (Inl x, c)
     | Inr c' \<Rightarrow> (Inr (length (events c')), c'))"

text \<open>
  A history of calls on one counter. Each call carries the clock readings it made;
  a call that raises ends the history with its exception.
\<close>

datatype counter_call = Add datetime datetime | Count datetime

fun call_times :: "counter_call \<Rightarrow> datetime list" where
  "call_times (Add t now) = [t, now]"
| "call_times (Count now) = [now]"

fun recorded :: "counter_call list \<Rightarrow> datetime list" where
  "recorded [] = []"
| "recorded (Add t now # cs) = t # recorded cs"
| "recorded (Count now # cs) = recorded cs"

fun run_call :: "counter \<Rightarrow> counter_call \<Rightarrow> exn + counter" where
  "run_call c (Add t now) = (case add t now c of (Inl x, c') \<Rightarrow> Inl x | (Inr u, c') \<Rightarrow> Inr c')"
| "run_call c (Count now) = (case count now c of (Inl x, c') \<Rightarrow> Inl x | (Inr n, c') \<Rightarrow> Inr c')"

fun run_calls :: "counter \<Rightarrow> counter_call list \<Rightarrow> exn + counter" where
  "run_calls c [] = Inr c"
| "run_calls c (x # xs) = (case run_call c x of Inl err \<Rightarrow> Inl err | Inr c' \<Rightarrow> run_calls c' xs)"

section \<open>Paths, strings and the operating system\<close>

type_synonym path = string
type_synonym byte = "8 word"
type_synonym bytes = "byte list"

text \<open>
  A Python \<^verbatim>\<open>str\<close> is modelled by its UTF-8 bytes, a \<open>string\<close>; a \<^verbatim>\<open>Path\<close> by the
  text of the normalised path. \<^verbatim>\<open>Path.name\<close> is the final component;
  \<^verbatim>\<open>dir / name\<close> joins with a slash.
\<close>

definition path_name :: "path \<Rightarrow> string" where
  "path_name p = rev (takeWhile (\<lambda>c. c \<noteq> CHR ''/'') (rev p))"

definition joinpath :: "path \<Rightarrow> string \<Rightarrow> path" where
  "joinpath d n = d @ ''/'' @ n"

text \<open>\<^verbatim>\<open>str\<close> of an int, in decimal.\<close>

definition digit_char :: "nat \<Rightarrow> char" where
  "digit_char n = char_of (48 + n)"

fun str_nat :: "nat \<Rightarrow> string" where
  "str_nat n = (if n < 10 then [digit_char n] else str_nat (n div 10) @ [digit_char (n mod 10)])"

declare str_nat.simps [simp del]

definition str_int :: "int \<Rightarrow> string" where
  "str_int i = (if i < 0 then CHR ''-'' # str_nat (nat (- i)) else str_nat (nat i))"

text \<open>The prefix test and the substring test \<^verbatim>\<open>pat in name\<close>.\<close>

fun starts_with :: "string \<Rightarrow> string \<Rightarrow> bool" where
  "starts_with [] s = True"
| "starts_with (p # ps) [] = False"
| "starts_with (p # ps) (c # cs) = (p = c \<and> starts_with ps cs)"

fun contains :: "string \<Rightarrow> string \<Rightarrow> bool" where
  "contains pat [] = (pat = [])"
| "contains pat (c # cs) = (starts_with pat (c # cs) \<or> contains pat cs)"

text \<open>
  What the process cannot decide is taken from an environment: the installation
  directory, the system clock (its \<open>n\<close>-th reading, for \<^verbatim>\<open>datetime.utcnow()\<close> and
  \<^verbatim>\<open>time.time()\<close>), the random source of \<^verbatim>\<open>secrets.token_bytes(12)\<close>, the outcome
  of the \<open>n\<close>-th file-system operation, AES-GCM under the process-lifetime key
  \<^verbatim>\<open>AESGCM_KEY\<close> (\<open>None\<close> when \<^verbatim>\<open>encrypt\<close> raises), the two time formats, whether
  scikit-learn could be imported, Python's parsers of \<^verbatim>\<open>int(str)\<close> and
  \<^verbatim>\<open>float(str)\<close> (\<open>None\<close> when they raise), and \<^verbatim>\<open>str.upper\<close>, which follows the
  Unicode tables.

  The file system of the model holds the regular files. Whether something else (a
  directory, a link, a device) stands at a path when the \<open>n\<close>-th file-system
  operation looks is read from the environment too (\<open>other_entry\<close>).

  An operation that raises may leave its target as it was (\<open>Fails None\<close>) or holding
  a partial result (\<open>Fails (Some junk)\<close>).
\<close>

datatype outcome = Succeeds | Fails "bytes option"

record env =
  base_dir :: path
  clock :: "nat \<Rightarrow> datetime"
  token_bytes :: "nat \<Rightarrow> bytes"
  io_outcome :: "nat \<Rightarrow> outcome"
  other_entry :: "nat \<Rightarrow> path \<Rightarrow> bool"
  aesgcm_encrypt :: "bytes \<Rightarrow> bytes \<Rightarrow> bytes option"
  strftime :: "datetime \<Rightarrow> string"
  isoformat :: "datetime \<Rightarrow> string"
  ml_available :: bool
  int_of_str :: "string \<Rightarrow> int option"
  float_of_str :: "string \<Rightarrow> pyfloat option"
  str_upper :: "string \<Rightarrow> string"

definition SANDBOX_DIR :: "env \<Rightarrow> path" where
  "SANDBOX_DIR e = joinpath (base_dir e) ''demo_sandbox''"

definition BACKUP_DIR :: "env \<Rightarrow> path" where
  "BACKUP_DIR e = joinpath (base_dir e) ''demo_backups''"

definition QUARANTINE_DIR :: "env \<Rightarrow> path" where
  "QUARANTINE_DIR e = joinpath (base_dir e) ''demo_quarantine''"

text \<open>
  \<^verbatim>\<open>runtime_config\<close> is a dict with seven string keys; \<^verbatim>\<open>set_rates\<close> assigns only to
  keys that are present, so the key set never changes. It is modelled as a total
  function on the datatype of these keys; \<open>key_of\<close> is the test
  \<^verbatim>\<open>k in runtime_config\<close>, returning the key.
\<close>

datatype cfg_key =
    FILES_MODIFIED_THRESHOLD
  | TIME_WINDOW_SECONDS
  | BYTES_WRITTEN_THRESHOLD
  | RENAMES_THRESHOLD
  | ENTROPY_THRESHOLD
  | CONFIDENCE_ACTION_THRESHOLD
  | CONFIDENCE_WARN_THRESHOLD

type_synonym config = "cfg_key \<Rightarrow> num"

definition key_of :: "string \<Rightarrow> cfg_key option" where
  "key_of k =
    (if k = ''FILES_MODIFIED_THRESHOLD'' then Some FILES_MODIFIED_THRESHOLD
     else if k = ''TIME_WINDOW_SECONDS'' then Some TIME_WINDOW_SECONDS
     else if k = ''BYTES_WRITTEN_THRESHOLD'' then Some BYTES_WRITTEN_THRESHOLD
     else if k = ''RENAMES_THRESHOLD'' then Some RENAMES_THRESHOLD
     else if k = ''ENTROPY_THRESHOLD'' then Some ENTROPY_THRESHOLD
     else if k = ''CONFIDENCE_ACTION_THRESHOLD'' then Some CONFIDENCE_ACTION_THRESHOLD
     else if k = ''CONFIDENCE_WARN_THRESHOLD'' then Some CONFIDENCE_WARN_THRESHOLD
     else None)"

fun default_config :: config where
  "default_config FILES_MODIFIED_THRESHOLD = PyInt 5"
| "default_config TIME_WINDOW_SECONDS = PyInt 15"
| "default_config BYTES_WRITTEN_THRESHOLD = PyInt (10 * 1024)"
| "default_config RENAMES_THRESHOLD = PyInt 2"
| "default_config ENTROPY_THRESHOLD = PyFloat (Finite 2.0)"
| "default_config CONFIDENCE_ACTION_THRESHOLD = PyFloat (Finite 0.05)"
| "default_config CONFIDENCE_WARN_THRESHOLD = PyFloat (Finite 0.02)"

definition WEIGHTS :: "(string \<times> real) list" where
  "WEIGHTS =
    [(''file_rate'', 0.25), (''bytes_written'', 0.20), (''rename_spike'', 0.15),
     (''ransom_note'', 0.20), (''entropy'', 0.2), (''proc_behavior'', 0.25),
     (''ml_score'', 0.15)]"

definition ransom_note_patterns :: "string list" where
  "ransom_note_patterns = [''README'', ''HOW_TO_DECRYPT'', ''RECOVER'', ''README_FOR_DECRYPT'']"

text \<open>
  The state: the file system (regular files and their contents), how many clock
  readings, random draws and file-system operations have been made, and the module's
  globals. \<^verbatim>\<open>recent_modified_files\<close> is a \<^verbatim>\<open>deque(maxlen=200)\<close>, its head the oldest
  entry; \<^verbatim>\<open>bytes_written_window\<close> is the deque of (time, size) samples;
  \<^verbatim>\<open>proc_writes\<close> maps a pid to its deque of (time, cumulative write bytes);
  \<^verbatim>\<open>ml_model\<close> is \<^verbatim>\<open>None\<close> or an object whose \<^verbatim>\<open>decision_function\<close> is given.
\<close>

record world =
  files :: "path \<rightharpoonup> bytes"
  ticks :: nat
  draws :: nat
  ios :: nat
  runtime_config :: config
  file_mod_counter :: counter
  bytes_written_window :: "(datetime \<times> nat) list"
  rename_counter :: counter
  recent_modified_files :: "path list"
  proc_writes :: "(nat \<times> (datetime \<times> int) list) list"
  ml_model :: "(real list \<Rightarrow> real) option"

text \<open>
  The module as it is after import, over a given file system: both counters are
  built from the default window, and the import raises what their constructor
  raises.
\<close>

definition initial_world :: "(path \<rightharpoonup> bytes) \<Rightarrow> exn + world" where
  "initial_world fs =
    (case new_counter (default_config TIME_WINDOW_SECONDS) of
       Inl x \<Rightarrow> Inl x
     | Inr c1 \<Rightarrow>
         (case new_counter (default_config TIME_WINDOW_SECONDS) of
            Inl x \<Rightarrow> Inl x
          | Inr c2 \<Rightarrow>
              Inr \<lparr>files = fs, ticks = 0, draws = 0, ios = 0,
                   runtime_config = default_config,
                   file_mod_counter = c1,
                   bytes_written_window = [],
                   rename_counter = c2,
                   recent_modified_files = [],
                   proc_writes = [],
                   ml_model = None\<rparr>))"

subsection \<open>Primitive effects\<close>

definition utcnow :: "env \<Rightarrow> world \<Rightarrow> datetime \<times> world" where
  "utcnow e w = (clock e (ticks w), w\<lparr>ticks := Suc (ticks w)\<rparr>)"

text \<open>\<^verbatim>\<open>int(time.time())\<close>: the clock in whole seconds, truncated towards zero.\<close>

definition int_time_time :: "env \<Rightarrow> world \<Rightarrow> int \<times> world" where
  "int_time_time e w =
    (let t = clock e (ticks w)
     in (if 0 \<le> t then t div 1000000 else - ((- t) div 1000000), w\<lparr>ticks := Suc (ticks w)\<rparr>))"

definition now_ts :: "env \<Rightarrow> world \<Rightarrow> string \<times> world" where
  "now_ts e w = (case utcnow e w of (t, w1) \<Rightarrow> (isoformat e t @ ''Z'', w1))"

definition secrets_token_bytes :: "env \<Rightarrow> world \<Rightarrow> bytes \<times> world" where
  "secrets_token_bytes e w = (token_bytes e (draws w), w\<lparr>draws := Suc (draws w)\<rparr>)"

definition io_next :: "env \<Rightarrow> world \<Rightarrow> outcome \<times> world" where
  "io_next e w = (io_outcome e (ios w), w\<lparr>ios := Suc (ios w)\<rparr>)"

text \<open>\<^verbatim>\<open>d.mkdir(parents=True, exist_ok=True)\<close>; \<open>False\<close> when it raises.\<close>

definition mkdir :: "env \<Rightarrow> path \<Rightarrow> world \<Rightarrow> bool \<times> world" where
  "mkdir e d w = (case io_next e w of (Succeeds, w1) \<Rightarrow> (True, w1) | (Fails junk, w1) \<Rightarrow> (False, w1))"

text \<open>
  Opening a file for reading and reading it whole; \<open>None\<close> when it raises (the file
  is missing, or the operation fails).
\<close>

definition read_file :: "env \<Rightarrow> path \<Rightarrow> world \<Rightarrow> bytes option \<times> world" where
  "read_file e p w =
    (case io_next e w of (Succeeds, w1) \<Rightarrow> (files w1 p, w1) | (Fails junk, w1) \<Rightarrow> (None, w1))"

text \<open>\<^verbatim>\<open>with dest.open('wb') as out: out.write(data)\<close>; \<open>False\<close> when it raises.\<close>

definition write_file :: "env \<Rightarrow> path \<Rightarrow> bytes \<Rightarrow> world \<Rightarrow> bool \<times> world" where
  "write_file e p d w =
    (case io_next e w of
       (Succeeds, w1) \<Rightarrow> (True, w1\<lparr>files := (files w1)(p \<mapsto> d)\<rparr>)
     | (Fails None, w1) \<Rightarrow> (False, w1)
     | (Fails (Some junk), w1) \<Rightarrow> (False, w1\<lparr>files := (files w1)(p \<mapsto> junk)\<rparr>))"

text \<open>
  \<^verbatim>\<open>shutil.copy2(src, dst)\<close>; \<open>False\<close> when it raises: source and destination are the
  same file, the source is missing, or the operation fails.
\<close>

definition copy2 :: "env \<Rightarrow> path \<Rightarrow> path \<Rightarrow> world \<Rightarrow> bool \<times> world" where
  "copy2 e src dst w =
    (if src = dst then (False, w)
     else case io_next e w of
       (Succeeds, w1) \<Rightarrow>
         (case files w1 src of
            None \<Rightarrow> (False, w1)
          | Some d \<Rightarrow> (True, w1\<lparr>files := (files w1)(dst \<mapsto> d)\<rparr>))
     | (Fails None, w1) \<Rightarrow> (False, w1)
     | (Fails (Some junk), w1) \<Rightarrow> (False, w1\<lparr>files := (files w1)(dst \<mapsto> junk)\<rparr>))"

text \<open>\<^verbatim>\<open>path.unlink(missing_ok=True)\<close>; \<open>False\<close> when it raises.\<close>

definition unlink :: "env \<Rightarrow> path \<Rightarrow> world \<Rightarrow> bool \<times> world" where
  "unlink e p w =
    (case io_next e w of
       (Succeeds, w1) \<Rightarrow> (True, w1\<lparr>files := (files w1)(p := None)\<rparr>)
     | (Fails junk, w1) \<Rightarrow> (False, w1))"

text \<open>
  \<^verbatim>\<open>p.exists()\<close>: true when a regular file or something else stands at the path;
  it raises when the look at the file system fails with anything but a missing
  path (a directory that may not be searched, a name that is too long).
\<close>

definition path_exists :: "env \<Rightarrow> path \<Rightarrow> world \<Rightarrow> (exn + bool) \<times> world" where
  "path_exists e p w =
    (case io_next e w of
       (Succeeds, w1) \<Rightarrow> (Inr (files w1 p \<noteq> None \<or> other_entry e (ios w) p), w1)
     | (Fails junk, w1) \<Rightarrow> (Inl ExistsError, w1))"

section \<open>Event handlers\<close>

text \<open>
  \<^verbatim>\<open>file_mod_counter.add()\<close> and \<^verbatim>\<open>rename_counter.add()\<close> on the globals. A
  function of the agent that may raise returns \<open>Inl\<close> of the exception or \<open>Inr\<close> of
  its value, with the state as it leaves it.
\<close>

definition file_mod_add :: "env \<Rightarrow> world \<Rightarrow> (exn + unit) \<times> world" where
  "file_mod_add e w =
    (case utcnow e w of (t, w1) \<Rightarrow>
     case utcnow e w1 of (now, w2) \<Rightarrow>
     case add t now (file_mod_counter w2) of (r, c) \<Rightarrow> (r, w2\<lparr>file_mod_counter := c\<rparr>))"

definition rename_add :: "env \<Rightarrow> world \<Rightarrow> (exn + unit) \<times> world" where
  "rename_add e w =
    (case utcnow e w of (t, w1) \<Rightarrow>
     case utcnow e w1 of (now, w2) \<Rightarrow>
     case add t now (rename_counter w2) of (r, c) \<Rightarrow> (r, w2\<lparr>rename_counter := c\<rparr>))"

text \<open>\<^verbatim>\<open>append\<close> on a \<^verbatim>\<open>deque(maxlen=200)\<close>: a full deque drops its head.\<close>

definition deque_append :: "nat \<Rightarrow> 'a list \<Rightarrow> 'a \<Rightarrow> 'a list" where
  "deque_append maxlen xs x = (if length xs < maxlen then xs @ [x] else tl xs @ [x])"

text \<open>\<^verbatim>\<open>SANDBOX_DIR in path.parents or path == SANDBOX_DIR\<close>.\<close>

definition in_sandbox :: "env \<Rightarrow> path \<Rightarrow> bool" where
  "in_sandbox e p = (starts_with (SANDBOX_DIR e @ ''/'') p \<or> p = SANDBOX_DIR e)"

text \<open>
  \<^verbatim>\<open>on_created\<close> and \<^verbatim>\<open>on_moved\<close>, the handlers that feed the log of recent
  files and the two counters. What they log changes nothing of the state.
\<close>

definition on_created :: "env \<Rightarrow> bool \<Rightarrow> path \<Rightarrow> world \<Rightarrow> (exn + unit) \<times> world" where
  "on_created e is_directory p w =
    (if is_directory then (Inr (), w)
     else if \<not> in_sandbox e p then (Inr (), w)
     else
       case file_mod_add e w of
         (Inl x, w1) \<Rightarrow> (Inl x, w1)
       | (Inr u, w1) \<Rightarrow>
           (Inr (), w1\<lparr>recent_modified_files := deque_append 200 (recent_modified_files w1) p\<rparr>))"

definition on_moved :: "env \<Rightarrow> path \<Rightarrow> path \<Rightarrow> world \<Rightarrow> (exn + unit) \<times> world" where
  "on_moved e src dst w = (if \<not> in_sandbox e dst then (Inr (), w) else rename_add e w)"

section \<open>Detectors\<close>

text \<open>\<^verbatim>\<open>file_mod_counter.count()\<close> and \<^verbatim>\<open>rename_counter.count()\<close> on the globals.\<close>

definition file_mod_count :: "env \<Rightarrow> world \<Rightarrow> (exn + nat) \<times> world" where
  "file_mod_count e w =
    (case utcnow e w of (now, w1) \<Rightarrow>
     case count now (file_mod_counter w1) of (r, c) \<Rightarrow> (r, w1\<lparr>file_mod_counter := c\<rparr>))"

definition rename_count :: "env \<Rightarrow> world \<Rightarrow> (exn + nat) \<times> world" where
  "rename_count e w =
    (case utcnow e w of (now, w1) \<Rightarrow>
     case count now (rename_counter w1) of (r, c) \<Rightarrow> (r, w1\<lparr>rename_counter := c\<rparr>))"

definition detect_file_rate_score :: "env \<Rightarrow> world \<Rightarrow> (exn + real) \<times> world" where
  "detect_file_rate_score e w =
    (case file_mod_count e w of
       (Inl x, w1) \<Rightarrow> (Inl x, w1)
     | (Inr cnt, w1) \<Rightarrow> (ratio_score (int cnt) (runtime_config w1 FILES_MODIFIED_THRESHOLD), w1))"

definition detect_bytes_written_score :: "world \<Rightarrow> exn + real" where
  "detect_bytes_written_score w =
    ratio_score (int (sum_list (map snd (bytes_written_window w))))
      (runtime_config w BYTES_WRITTEN_THRESHOLD)"

definition detect_rename_score :: "env \<Rightarrow> world \<Rightarrow> (exn + real) \<times> world" where
  "detect_rename_score e w =
    (case rename_count e w of
       (Inl x, w1) \<Rightarrow> (Inl x, w1)
     | (Inr cnt, w1) \<Rightarrow> (ratio_score (int cnt) (runtime_config w1 RENAMES_THRESHOLD), w1))"

text \<open>
  The loop of \<^verbatim>\<open>detect_ransom_note_score\<close>; \<^verbatim>\<open>p.exists()\<close> stands outside any
  \<^verbatim>\<open>try\<close>, so what it raises leaves the detector.
\<close>

fun ransom_note_loop :: "env \<Rightarrow> path list \<Rightarrow> world \<Rightarrow> (exn + real) \<times> world" where
  "ransom_note_loop e [] w = (Inr 0, w)"
| "ransom_note_loop e (p # ps) w =
    (case path_exists e p w of
       (Inl x, w1) \<Rightarrow> (Inl x, w1)
     | (Inr False, w1) \<Rightarrow> ransom_note_loop e ps w1
     | (Inr True, w1) \<Rightarrow>
         if list_ex (\<lambda>pat. contains pat (str_upper e (path_name p))) ransom_note_patterns
         then (Inr 1, w1)
         else ransom_note_loop e ps w1)"

definition detect_ransom_note_score :: "env \<Rightarrow> world \<Rightarrow> (exn + real) \<times> world" where
  "detect_ransom_note_score e w = ransom_note_loop e (recent_modified_files w) w"

text \<open>
  \<^verbatim>\<open>entropy(data)\<close>: \<open>freq\<close> is the dict of byte counts in insertion order, the loop
  subtracts \<open>p * log2(p)\<close> for each count.
\<close>

fun freq_bump :: "(byte \<times> nat) list \<Rightarrow> byte \<Rightarrow> (byte \<times> nat) list" where
  "freq_bump [] b = [(b, 1)]"
| "freq_bump ((k, v) # kvs) b = (if k = b then (k, v + 1) # kvs else (k, v) # freq_bump kvs b)"

definition entropy :: "bytes \<Rightarrow> real" where
  "entropy data =
    (if data = [] then 0
     else foldl (\<lambda>ent v. ent - (real v / real (length data)) * log 2 (real v / real (length data)))
            0 (map snd (foldl freq_bump [] data)))"

text \<open>
  \<^verbatim>\<open>min(1.0, e / max(0.001, thr))\<close> for the entropy \<open>e\<close> of a chunk, between 0 and 8.
  When \<open>thr\<close> is an int above 0.001, \<^verbatim>\<open>max\<close> returns that int and the division
  converts it to a float, which raises from \<open>FLOAT_LIMIT\<close> on (\<open>None\<close>).
\<close>

definition entropy_ratio :: "real \<Rightarrow> num \<Rightarrow> real option" where
  "entropy_ratio x thr =
    (case thr of
       PyInt i \<Rightarrow> if FLOAT_LIMIT \<le> i then None else Some (capped x (py_max 0.001 thr))
     | PyFloat f \<Rightarrow> Some (capped x (py_max 0.001 thr)))"

text \<open>
  The loop of \<^verbatim>\<open>detect_entropy_score\<close>. Its \<^verbatim>\<open>try\<close> holds the opening, the
  reading (\<^verbatim>\<open>f.read(4096)\<close> is the first 4096 bytes) and the division: a file that
  cannot be opened, and a division that raises, are skipped.
\<close>

fun entropy_scores :: "env \<Rightarrow> num \<Rightarrow> path list \<Rightarrow> world \<Rightarrow> real list \<times> world" where
  "entropy_scores e thr [] w = ([], w)"
| "entropy_scores e thr (p # ps) w =
    (case read_file e p w of
       (None, w1) \<Rightarrow> entropy_scores e thr ps w1
     | (Some data, w1) \<Rightarrow>
         (case entropy_ratio (entropy (take 4096 data)) thr of
            None \<Rightarrow> entropy_scores e thr ps w1
          | Some s \<Rightarrow>
              (case entropy_scores e thr ps w1 of (scores, w2) \<Rightarrow> (s # scores, w2))))"

definition detect_entropy_score :: "env \<Rightarrow> world \<Rightarrow> real \<times> world" where
  "detect_entropy_score e w =
    (case entropy_scores e (runtime_config w ENTROPY_THRESHOLD)
            (take 5 (recent_modified_files w)) w of
       (scores, w1) \<Rightarrow>
         (if scores = [] then 0 else sum_list scores / real (length scores), w1))"

text \<open>
  \<^verbatim>\<open>runtime_config["BYTES_WRITTEN_THRESHOLD"] / 10.0\<close>: an int is converted to a
  float first.
\<close>

fun tenth :: "num \<Rightarrow> exn + pyfloat" where
  "tenth (PyInt i) = (case int_to_float i of Inl x \<Rightarrow> Inl x | Inr r \<Rightarrow> Inr (Finite (r / 10)))"
| "tenth (PyFloat (Finite r)) = Inr (Finite (r / 10))"
| "tenth (PyFloat PosInf) = Inr PosInf"
| "tenth (PyFloat NegInf) = Inr NegInf"
| "tenth (PyFloat NaN) = Inr NaN"

text \<open>
  The loop of \<^verbatim>\<open>detect_proc_behavior_score\<close> over \<^verbatim>\<open>proc_writes.items()\<close>; nothing
  in it is caught.
\<close>

fun proc_scores :: "pyfloat \<Rightarrow> (nat \<times> (datetime \<times> int) list) list \<Rightarrow> exn + real list" where
  "proc_scores thr [] = Inr []"
| "proc_scores thr ((pid, dq) # rest) =
    (if dq = [] then proc_scores thr rest
     else if 2 \<le> length dq then
       (case ratio_score (snd (last dq) - snd (hd dq)) (PyFloat thr) of
          Inl x \<Rightarrow> Inl x
        | Inr s \<Rightarrow>
            (case proc_scores thr rest of
               Inl x \<Rightarrow> Inl x
             | Inr scores \<Rightarrow> Inr (if s > 0.1 then s # scores else scores)))
     else proc_scores thr rest)"

definition detect_proc_behavior_score :: "world \<Rightarrow> exn + real" where
  "detect_proc_behavior_score w =
    (case tenth (runtime_config w BYTES_WRITTEN_THRESHOLD) of
       Inl x \<Rightarrow> Inl x
     | Inr thr \<Rightarrow>
         (case proc_scores thr (proc_writes w) of
            Inl x \<Rightarrow> Inl x
          | Inr [] \<Rightarrow> Inr 0
          | Inr (s # scores) \<Rightarrow> Inr (foldl max s scores)))"

fun proc_max_loop :: "int \<Rightarrow> (datetime \<times> int) list list \<Rightarrow> int" where
  "proc_max_loop m [] = m"
| "proc_max_loop m (dq # rest) =
    (if 1 < length dq then proc_max_loop (max m (snd (last dq) - snd (hd dq))) rest
     else proc_max_loop m rest)"

definition detect_ml_score :: "env \<Rightarrow> world \<Rightarrow> (exn + real) \<times> world" where
  "detect_ml_score e w =
    (case ml_model w of
       None \<Rightarrow> (Inr 0, w)
     | Some decision_function \<Rightarrow>
         if \<not> ml_available e then (Inr 0, w)
         else
           case file_mod_count e w of
             (Inl x, w1) \<Rightarrow> (Inl x, w1)
           | (Inr fc, w1) \<Rightarrow>
               (case rename_count e w1 of
                  (Inl x, w2) \<Rightarrow> (Inl x, w2)
                | (Inr rc, w2) \<Rightarrow>
                    (let bt = sum_list (map snd (bytes_written_window w2));
                         proc_max = proc_max_loop 0 (map snd (proc_writes w2));
                         score_raw = decision_function [real fc, real bt, real rc, real_of_int proc_max]
                     in (Inr (if score_raw < 0 then min 1 (- score_raw / 10) else 0), w2))))"

text \<open>
  \<^verbatim>\<open>compute_confidence\<close>: the seven detectors in the order of the dict, the first
  exception leaving the function, then the weighted sum over the sum of the weights
  (\<^verbatim>\<open>sum(WEIGHTS.values()) or 1.0\<close>).
\<close>

definition weights_get :: "string \<Rightarrow> real" where
  "weights_get k = (case map_of WEIGHTS k of None \<Rightarrow> 0 | Some x \<Rightarrow> x)"

definition fuse :: "(string \<times> real) list \<Rightarrow> real" where
  "fuse detectors =
    sum_list (map (\<lambda>(k, v). weights_get k * v) detectors)
    / (if sum_list (map snd WEIGHTS) = 0 then 1 else sum_list (map snd WEIGHTS))"

definition compute_confidence ::
    "env \<Rightarrow> world \<Rightarrow> (exn + real \<times> (string \<times> real) list) \<times> world" where
  "compute_confidence e w =
    (case detect_file_rate_score e w of
       (Inl x, w1) \<Rightarrow> (Inl x, w1)
     | (Inr s_file, w1) \<Rightarrow>
    (case detect_bytes_written_score w1 of
       Inl x \<Rightarrow> (Inl x, w1)
     | Inr s_bytes \<Rightarrow>
    (case detect_rename_score e w1 of
       (Inl x, w2) \<Rightarrow> (Inl x, w2)
     | (Inr s_rename, w2) \<Rightarrow>
    (case detect_ransom_note_score e w2 of
       (Inl x, w3) \<Rightarrow> (Inl x, w3)
     | (Inr s_note, w3) \<Rightarrow>
    (case detect_entropy_score e w3 of (s_entropy, w4) \<Rightarrow>
    (case detect_proc_behavior_score w4 of
       Inl x \<Rightarrow> (Inl x, w4)
     | Inr s_proc \<Rightarrow>
    (case detect_ml_score e w4 of
       (Inl x, w5) \<Rightarrow> (Inl x, w5)
     | (Inr s_ml, w5) \<Rightarrow>
         (let detectors =
                [(''file_rate'', s_file),
                 (''bytes_written'', s_bytes),
                 (''rename_spike'', s_rename),
                 (''ransom_note'', s_note),
                 (''entropy'', s_entropy),
                 (''proc_behavior'', s_proc),
                 (''ml_score'', s_ml)]
          in (Inr (fuse detectors, detectors), w5)))))))))"

section \<open>Actions on detection\<close>

text \<open>
  \<^verbatim>\<open>encrypt_and_store(filepath)\<close> with the default \<^verbatim>\<open>backup_dir=BACKUP_DIR\<close>. Every
  \<^verbatim>\<open>raise\<close> is an \<open>Inl\<close>. The function has no \<^verbatim>\<open>return\<close> statement: on success
  the caller receives \<^verbatim>\<open>None\<close>, the \<open>()\<close> of \<open>Inr ()\<close>.
\<close>

definition snapshot_dest :: "env \<Rightarrow> path \<Rightarrow> datetime \<Rightarrow> path" where
  "snapshot_dest e filepath t =
    joinpath (BACKUP_DIR e) (path_name filepath @ ''.'' @ strftime e t @ ''.enc'')"

definition encrypt_and_store :: "env \<Rightarrow> path \<Rightarrow> world \<Rightarrow> (exn + unit) \<times> world" where
  "encrypt_and_store e filepath w =
    (case mkdir e (BACKUP_DIR e) w of
       (False, w1) \<Rightarrow> (Inl MkdirError, w1)
     | (True, w1) \<Rightarrow>
         (case secrets_token_bytes e w1 of (nonce, w2) \<Rightarrow>
          case read_file e filepath w2 of
            (None, w3) \<Rightarrow> (Inl ReadError, w3)
          | (Some data, w3) \<Rightarrow>
              (case aesgcm_encrypt e nonce data of
                 None \<Rightarrow> (Inl EncryptError, w3)
               | Some ct \<Rightarrow>
                   (case utcnow e w3 of (t, w4) \<Rightarrow>
                    case write_file e (snapshot_dest e filepath t) (nonce @ ct) w4 of
                      (False, w5) \<Rightarrow> (Inl WriteError, w5)
                    | (True, w5) \<Rightarrow> (Inr (), w5)))))"

text \<open>
  \<^verbatim>\<open>move_to_quarantine(path)\<close>: the copy and the removal stand in one \<^verbatim>\<open>try\<close>, whose
  handler logs and raises again; the removal is reached only when the copy returned.
\<close>

definition quarantine_dest :: "env \<Rightarrow> path \<Rightarrow> int \<Rightarrow> path" where
  "quarantine_dest e p secs = joinpath (QUARANTINE_DIR e) (path_name p @ ''.'' @ str_int secs)"

definition move_to_quarantine :: "env \<Rightarrow> path \<Rightarrow> world \<Rightarrow> (exn + path) \<times> world" where
  "move_to_quarantine e p w =
    (case mkdir e (QUARANTINE_DIR e) w of
       (False, w1) \<Rightarrow> (Inl MkdirError, w1)
     | (True, w1) \<Rightarrow>
         (case int_time_time e w1 of (secs, w2) \<Rightarrow>
          case copy2 e p (quarantine_dest e p secs) w2 of
            (False, w3) \<Rightarrow> (Inl CopyError, w3)
          | (True, w3) \<Rightarrow>
              (case unlink e p w3 of
                 (False, w4) \<Rightarrow> (Inl UnlinkError, w4)
               | (True, w4) \<Rightarrow> (Inr (quarantine_dest e p secs), w4))))"

record alert =
  timestamp :: string
  confidence :: real
  detectors :: "(string \<times> real) list"
  snapshots :: "string list"

text \<open>\<^verbatim>\<open>str(dest)\<close> of the \<^verbatim>\<open>None\<close> that \<^verbatim>\<open>encrypt_and_store\<close> returns.\<close>

definition str_of_None :: "unit \<Rightarrow> string" where
  "str_of_None u = ''None''"

text \<open>
  The loop of \<^verbatim>\<open>snapshot_and_alert\<close> over \<^verbatim>\<open>list(recent_modified_files)[:20]\<close>: an
  exception of \<^verbatim>\<open>encrypt_and_store\<close> is logged and the loop goes on.
\<close>

fun snapshot_loop :: "env \<Rightarrow> path list \<Rightarrow> string list \<Rightarrow> world \<Rightarrow> string list \<times> world" where
  "snapshot_loop e [] snap_list w = (snap_list, w)"
| "snapshot_loop e (p # ps) snap_list w =
    (case encrypt_and_store e p w of
       (Inr dest, w1) \<Rightarrow> snapshot_loop e ps (snap_list @ [str_of_None dest]) w1
     | (Inl err, w1) \<Rightarrow> snapshot_loop e ps snap_list w1)"

text \<open>
  \<^verbatim>\<open>snapshot_and_alert\<close>: the snapshots, the alert, then the quarantine of
  \<^verbatim>\<open>recent_modified_files[-1]\<close>, whose exception is logged. The desktop notification
  changes nothing of the state.
\<close>

definition snapshot_and_alert ::
    "env \<Rightarrow> real \<Rightarrow> (string \<times> real) list \<Rightarrow> world \<Rightarrow> alert \<times> world" where
  "snapshot_and_alert e conf dets w =
    (case snapshot_loop e (take 20 (recent_modified_files w)) [] w of (snap_list, w1) \<Rightarrow>
     case now_ts e w1 of (ts, w2) \<Rightarrow>
       (\<lparr>timestamp = ts, confidence = conf, detectors = dets, snapshots = snap_list\<rparr>,
        if recent_modified_files w2 \<noteq> []
        then snd (move_to_quarantine e (last (recent_modified_files w2)) w2)
        else w2))"

section \<open>The administrative update\<close>

text \<open>
  The parsed body of the request. Python's parser reads the literals \<^verbatim>\<open>NaN\<close>,
  \<^verbatim>\<open>Infinity\<close> and \<^verbatim>\<open>-Infinity\<close>, and a number beyond the float range, as
  floats that are not finite.
\<close>

datatype json =
    JNull | JBool bool | JInt int | JFloat pyfloat | JStr string
  | JArr "json list" | JObj "(string \<times> json) list"

text \<open>
  \<^verbatim>\<open>int(v)\<close> and \<^verbatim>\<open>float(v)\<close> on a value of the parsed body; \<open>None\<close> when they
  raise. \<^verbatim>\<open>int\<close> of a float truncates towards zero and raises for an infinity
  and for \<^verbatim>\<open>nan\<close>; \<^verbatim>\<open>float\<close> of an int raises beyond the float range.
\<close>

fun py_int :: "env \<Rightarrow> json \<Rightarrow> int option" where
  "py_int e (JInt i) = Some i"
| "py_int e (JBool b) = Some (if b then 1 else 0)"
| "py_int e (JFloat (Finite r)) = Some (if 0 \<le> r then \<lfloor>r\<rfloor> else \<lceil>r\<rceil>)"
| "py_int e (JFloat PosInf) = None"
| "py_int e (JFloat NegInf) = None"
| "py_int e (JFloat NaN) = None"
| "py_int e (JStr s) = int_of_str e s"
| "py_int e JNull = None"
| "py_int e (JArr xs) = None"
| "py_int e (JObj kvs) = None"

fun py_float :: "env \<Rightarrow> json \<Rightarrow> pyfloat option" where
  "py_float e (JInt i) = (case int_to_float i of Inl x \<Rightarrow> None | Inr r \<Rightarrow> Some (Finite r))"
| "py_float e (JBool b) = Some (Finite (if b then 1 else 0))"
| "py_float e (JFloat f) = Some f"
| "py_float e (JStr s) = float_of_str e s"
| "py_float e JNull = None"
| "py_float e (JArr xs) = None"
| "py_float e (JObj kvs) = None"

text \<open>\<^verbatim>\<open>type(runtime_config[k])(v)\<close>: the type of the current value decides.\<close>

fun py_coerce :: "env \<Rightarrow> num \<Rightarrow> json \<Rightarrow> num option" where
  "py_coerce e (PyInt old) v = map_option PyInt (py_int e v)"
| "py_coerce e (PyFloat old) v = map_option PyFloat (py_float e v)"

text \<open>\<^verbatim>\<open>updated[k] = x\<close> on a dict kept in insertion order.\<close>

fun dict_set :: "(string \<times> 'v) list \<Rightarrow> string \<Rightarrow> 'v \<Rightarrow> (string \<times> 'v) list" where
  "dict_set [] k x = [(k, x)]"
| "dict_set ((k', x') # kvs) k x = (if k' = k then (k, x) # kvs else (k', x') # dict_set kvs k x)"

text \<open>
  The loop of \<^verbatim>\<open>set_rates\<close> over \<^verbatim>\<open>payload.items()\<close>: it writes each accepted value
  into the configuration at once and returns at the first key it rejects.
\<close>

fun set_rates_loop ::
    "env \<Rightarrow> (string \<times> json) list \<Rightarrow> config \<Rightarrow> (string \<times> num) list
      \<Rightarrow> (string + (string \<times> num) list) \<times> config" where
  "set_rates_loop e [] cfg updated = (Inr updated, cfg)"
| "set_rates_loop e ((k, v) # kvs) cfg updated =
    (case key_of k of
       None \<Rightarrow> (Inl (''unknown key '' @ k), cfg)
     | Some key \<Rightarrow>
         (case py_coerce e (cfg key) v of
            None \<Rightarrow> (Inl (''invalid value for '' @ k), cfg)
          | Some x \<Rightarrow> set_rates_loop e kvs (cfg(key := x)) (dict_set updated k x)))"

text \<open>
  The responses: status 400 with the error text, status 200 with the dict
  \<^verbatim>\<open>updated\<close>, and status 500 when the handler raises: the body is not an object
  (\<^verbatim>\<open>payload.items()\<close>), the constructor of a counter raises, or the response
  cannot be written as JSON because a value of \<^verbatim>\<open>updated\<close> is not finite.
\<close>

datatype response = Response400 string | Response200 "(string \<times> num) list" | Response500

fun json_compliant :: "num \<Rightarrow> bool" where
  "json_compliant (PyInt i) = True"
| "json_compliant (PyFloat (Finite r)) = True"
| "json_compliant (PyFloat PosInf) = False"
| "json_compliant (PyFloat NegInf) = False"
| "json_compliant (PyFloat NaN) = False"

definition respond :: "(string \<times> num) list \<Rightarrow> response" where
  "respond updated =
    (if list_all (\<lambda>kv. json_compliant (snd kv)) updated then Response200 updated else Response500)"

text \<open>
  \<^verbatim>\<open>set_rates\<close>: the loop, then the two counters are built anew, one after the
  other, when \<^verbatim>\<open>TIME_WINDOW_SECONDS\<close> is among the updated keys, then the response.
\<close>

definition set_rates :: "env \<Rightarrow> json \<Rightarrow> world \<Rightarrow> response \<times> world" where
  "set_rates e payload w =
    (case payload of
       JObj items \<Rightarrow>
         (case set_rates_loop e items (runtime_config w) [] of
            (Inl err, cfg) \<Rightarrow> (Response400 err, w\<lparr>runtime_config := cfg\<rparr>)
          | (Inr updated, cfg) \<Rightarrow>
              if ''TIME_WINDOW_SECONDS'' \<in> set (map fst updated)
              then
                (case new_counter (cfg TIME_WINDOW_SECONDS) of
                   Inl x \<Rightarrow> (Response500, w\<lparr>runtime_config := cfg\<rparr>)
                 | Inr c1 \<Rightarrow>
                     (case new_counter (cfg TIME_WINDOW_SECONDS) of
                        Inl x \<Rightarrow> (Response500, w\<lparr>runtime_config := cfg, file_mod_counter := c1\<rparr>)
                      | Inr c2 \<Rightarrow>
                          (respond updated,
                           w\<lparr>runtime_config := cfg, file_mod_counter := c1,
                             rename_counter := c2\<rparr>)))
              else (respond updated, w\<lparr>runtime_config := cfg\<rparr>))
     | _ \<Rightarrow> (Response500, w))"

section \<open>One evaluation of the agent loop\<close>



section \<open>The URL classifier\<close>




































section \<open>Auxiliary notions for the proofs\<close>

text \<open>All clock readings of a history of counter calls, in the order they were made.\<close>

definition calls_times :: "counter_call list \<Rightarrow> datetime list" where
  "calls_times cs = concat (map call_times cs)"

text \<open>
  The clock readings at which a history computes a cutoff, one for each call, and
  the test that the cutoff of a window of \<open>d\<close> microseconds at the reading \<open>now\<close>
  is a \<^verbatim>\<open>datetime\<close>.
\<close>

fun cutoff_time :: "counter_call \<Rightarrow> datetime" where
  "cutoff_time (Add t now) = now"
| "cutoff_time (Count now) = now"

definition cutoff_ok :: "int \<Rightarrow> datetime \<Rightarrow> bool" where
  "cutoff_ok d now = (DATETIME_MIN \<le> now - d \<and> now - d \<le> DATETIME_MAX)"

text \<open>The closed interval \<open>[now - d, now]\<close> of a window of \<open>d\<close> microseconds.\<close>

definition in_window :: "int \<Rightarrow> datetime \<Rightarrow> datetime \<Rightarrow> bool" where
  "in_window d now t = (now - d \<le> t \<and> t \<le> now)"

text \<open>The counter that a call of \<^verbatim>\<open>_prune\<close> at the reading \<open>t\<close> leaves when it returns.\<close>

definition pruned :: "counter \<Rightarrow> datetime \<Rightarrow> counter" where
  "pruned c t = c\<lparr>events := dropWhile (\<lambda>x. x < t - window c) (events c)\<rparr>"

text \<open>
  The invariant of a counter with window \<open>d\<close> after the calls \<open>cs\<close>: it holds only
  recorded readings, and pruning it at any later time \<open>T\<close> leaves the recorded readings
  from \<open>T - d\<close> on.
\<close>

definition counter_inv :: "int \<Rightarrow> counter_call list \<Rightarrow> counter \<Rightarrow> bool" where
  "counter_inv d cs c =
    (window c = d \<and> list_all (\<lambda>x. x \<in> set (recorded cs)) (events c) \<and>
     (\<forall>T. list_all (\<lambda>t. t \<le> T) (calls_times cs) \<longrightarrow>
        dropWhile (\<lambda>t. t < T - d) (events c) = filter (\<lambda>t. T - d \<le> t) (recorded cs)))"

text \<open>
  A concrete environment for the examples: the clock starts in 1970 and advances one
  second with each reading, no file-system operation fails, the file system holds
  regular files only, and the cipher is a stand-in that appends a tag of sixteen zero
  bytes. Strings of decimal digits are the numbers it parses, and \<^verbatim>\<open>upper\<close> maps the
  ASCII letters.
\<close>

definition upper_char :: "char \<Rightarrow> char" where
  "upper_char c = (if 97 \<le> (of_char c :: nat) \<and> (of_char c :: nat) \<le> 122
                   then char_of ((of_char c :: nat) - 32) else c)"


fun parse_digits :: "nat \<Rightarrow> string \<Rightarrow> nat option" where
  "parse_digits acc [] = Some acc"
| "parse_digits acc (c # cs) =
    (if 48 \<le> (of_char c :: nat) \<and> (of_char c :: nat) \<le> 57
     then parse_digits (10 * acc + ((of_char c :: nat) - 48)) cs else None)"

definition parse_nat :: "string \<Rightarrow> nat option" where
  "parse_nat s = (if s = [] then None else parse_digits 0 s)"

definition example_env :: env where
  "example_env =
    \<lparr>base_dir = ''/opt/agent'',
     clock = (\<lambda>n. int n * 1000000),
     token_bytes = (\<lambda>n. replicate 12 (of_nat n)),
     io_outcome = (\<lambda>n. Succeeds),
     other_entry = (\<lambda>n p. False),
     aesgcm_encrypt = (\<lambda>nonce data. Some (data @ replicate 16 0)),
     strftime = (\<lambda>t. str_int (t div 1000000)),
     isoformat = (\<lambda>t. str_int (t div 1000000)),
     ml_available = False,
     int_of_str = (\<lambda>s. map_option int (parse_nat s)),
     float_of_str = (\<lambda>s. map_option (\<lambda>n. Finite (real n)) (parse_nat s)),
     str_upper = map upper_char\<rparr>"

text \<open>
  An item of a request is accepted when its key is a key of the configuration and
  its value coerces to the type of that key's current value.
\<close>

definition accepts :: "env \<Rightarrow> config \<Rightarrow> string \<times> json \<Rightarrow> bool" where
  "accepts e cfg item =
    (case key_of (fst item) of
       None \<Rightarrow> False
     | Some key \<Rightarrow> py_coerce e (cfg key) (snd item) \<noteq> None)"

text \<open>
  What a request asks for a key: the coercion of the last value it gives for that
  key, by the type of the key's value in the configuration \<open>cfg\<close>; \<open>None\<close> when the
  request does not name the key, the key is unknown, or the coercion raises. The
  configuration that holds these values, and the old value of every other key.
\<close>

definition requested :: "env \<Rightarrow> config \<Rightarrow> (string \<times> json) list \<Rightarrow> string \<Rightarrow> num option" where
  "requested e cfg items k =
    (case map_of (rev items) k of
       None \<Rightarrow> None
     | Some v \<Rightarrow> (case key_of k of None \<Rightarrow> None | Some key \<Rightarrow> py_coerce e (cfg key) v))"

fun key_name :: "cfg_key \<Rightarrow> string" where
  "key_name FILES_MODIFIED_THRESHOLD = ''FILES_MODIFIED_THRESHOLD''"
| "key_name TIME_WINDOW_SECONDS = ''TIME_WINDOW_SECONDS''"
| "key_name BYTES_WRITTEN_THRESHOLD = ''BYTES_WRITTEN_THRESHOLD''"
| "key_name RENAMES_THRESHOLD = ''RENAMES_THRESHOLD''"
| "key_name ENTROPY_THRESHOLD = ''ENTROPY_THRESHOLD''"
| "key_name CONFIDENCE_ACTION_THRESHOLD = ''CONFIDENCE_ACTION_THRESHOLD''"
| "key_name CONFIDENCE_WARN_THRESHOLD = ''CONFIDENCE_WARN_THRESHOLD''"

definition config_after :: "env \<Rightarrow> config \<Rightarrow> (string \<times> json) list \<Rightarrow> config" where
  "config_after e cfg items key =
    (case requested e cfg items (key_name key) of None \<Rightarrow> cfg key | Some x \<Rightarrow> x)"

fun is_int :: "num \<Rightarrow> bool" where
  "is_int (PyInt i) = True"
| "is_int (PyFloat f) = False"

text \<open>
  Example states: the module after import (\<open>initial_world\<close> returns it), and after one
  file was created in the sandbox.
\<close>

definition start_world :: "(path \<rightharpoonup> bytes) \<Rightarrow> world" where
  "start_world fs =
    \<lparr>files = fs, ticks = 0, draws = 0, ios = 0,
     runtime_config = default_config,
     file_mod_counter = \<lparr>window = 15000000, events = []\<rparr>,
     bytes_written_window = [],
     rename_counter = \<lparr>window = 15000000, events = []\<rparr>,
     recent_modified_files = [],
     proc_writes = [],
     ml_model = None\<rparr>"

definition one_created :: world where
  "one_created =
    snd (on_created example_env False ''/opt/agent/demo_sandbox/a.txt'' (start_world Map.empty))"

text \<open>
  A state in which every detector returns: the cutoffs of both counters at the clock
  readings of \<^verbatim>\<open>compute_confidence\<close> are dates, the numbers that are converted to
  floats are below \<open>FLOAT_LIMIT\<close>, and no look at the file system for an entry of the
  log fails.
\<close>

definition calm :: "env \<Rightarrow> world \<Rightarrow> bool" where
  "calm e w =
    (cutoff_ok (window (file_mod_counter w)) (clock e (ticks w))
     \<and> cutoff_ok (window (rename_counter w)) (clock e (Suc (ticks w)))
     \<and> (ml_model w = None \<or> \<not> ml_available e
        \<or> cutoff_ok (window (file_mod_counter w)) (clock e (Suc (Suc (ticks w))))
          \<and> cutoff_ok (window (rename_counter w)) (clock e (Suc (Suc (Suc (ticks w))))))
     \<and> int (length (events (file_mod_counter w))) < FLOAT_LIMIT
     \<and> int (length (events (rename_counter w))) < FLOAT_LIMIT
     \<and> int (sum_list (map snd (bytes_written_window w))) < FLOAT_LIMIT
     \<and> (case runtime_config w BYTES_WRITTEN_THRESHOLD of
          PyInt i \<Rightarrow> \<bar>i\<bar> < FLOAT_LIMIT
        | PyFloat f \<Rightarrow> True)
     \<and> list_all (\<lambda>pq. length (snd pq) < 2
                        \<or> \<bar>snd (last (snd pq)) - snd (hd (snd pq))\<bar> < FLOAT_LIMIT) (proc_writes w)
     \<and> list_all (\<lambda>i. io_outcome e (ios w + i) = Succeeds)
          [0..<length (recent_modified_files w)])"

text \<open>The module's globals, without the file system and the three counters of effects.\<close>

definition agent_globals ::
    "world \<Rightarrow> config \<times> counter \<times> (datetime \<times> nat) list \<times> counter \<times> path list
       \<times> (nat \<times> (datetime \<times> int) list) list \<times> (real list \<Rightarrow> real) option" where
  "agent_globals w =
    (runtime_config w, file_mod_counter w, bytes_written_window w, rename_counter w,
     recent_modified_files w, proc_writes w, ml_model w)"

text \<open>
  How a state \<open>w1\<close> differs from \<open>w\<close> after the detectors have looked at it: the
  clock and the file system have been consulted, and the two counters have been
  pruned; everything else is as it was.
\<close>

definition looked :: "world \<Rightarrow> world \<Rightarrow> bool" where
  "looked w w1 =
    (files w1 = files w \<and> draws w1 = draws w \<and> runtime_config w1 = runtime_config w
     \<and> bytes_written_window w1 = bytes_written_window w
     \<and> recent_modified_files w1 = recent_modified_files w
     \<and> proc_writes w1 = proc_writes w \<and> ml_model w1 = ml_model w
     \<and> (\<exists>ts. file_mod_counter w1 = foldl pruned (file_mod_counter w) ts)
     \<and> (\<exists>rs. rename_counter w1 = foldl pruned (rename_counter w) rs))"

text \<open>
  Shannon entropy of the distribution of byte values in \<open>data\<close>, in bits, and the mean
  of a list of scores (0 for no score).
\<close>

definition shannon :: "bytes \<Rightarrow> real" where
  "shannon data =
    - (\<Sum>b\<in>set data. (real (count_list data b) / real (length data))
                        * log 2 (real (count_list data b) / real (length data)))"

definition mean :: "real list \<Rightarrow> real" where
  "mean xs = (if xs = [] then 0 else sum_list xs / real (length xs))"

text \<open>
  The chunks that a loop over the paths \<open>ps\<close> reads when its first file-system
  operation is the \<open>n\<close>-th: a file that is missing or whose read fails gives none.
\<close>

fun opened :: "env \<Rightarrow> nat \<Rightarrow> (path \<rightharpoonup> bytes) \<Rightarrow> path list \<Rightarrow> bytes list" where
  "opened e n fs [] = []"
| "opened e n fs (p # ps) =
    (case io_outcome e n of
       Succeeds \<Rightarrow> (case fs p of None \<Rightarrow> [] | Some d \<Rightarrow> [take 4096 d])
     | Fails junk \<Rightarrow> [])
    @ opened e (Suc n) fs ps"

text \<open>
  The entropy score as the specification words it, for a finite threshold \<open>thr\<close>: the
  five most recent entries of the log, each normalised by the threshold itself.
\<close>

definition spec_entropy_score :: "env \<Rightarrow> world \<Rightarrow> real \<Rightarrow> real" where
  "spec_entropy_score e w thr =
    mean (map (\<lambda>c. min 1 (shannon c / thr))
            (opened e (ios w) (files w) (take 5 (rev (recent_modified_files w)))))"

text \<open>
  An example state for the entropy detector: six entries in the log, of which only
  the most recent one exists, holding the two bytes 0 and 1.
\<close>

definition six_logged :: world where
  "six_logged =
    (start_world [''/opt/agent/demo_sandbox/f'' \<mapsto> [0, 1]])
      \<lparr>recent_modified_files :=
         [''/opt/agent/demo_sandbox/a'', ''/opt/agent/demo_sandbox/b'',
          ''/opt/agent/demo_sandbox/c'', ''/opt/agent/demo_sandbox/d'',
          ''/opt/agent/demo_sandbox/e'', ''/opt/agent/demo_sandbox/f'']\<rparr>"

definition one_logged :: world where
  "one_logged =
    (start_world [''/opt/agent/demo_sandbox/f'' \<mapsto> [0, 1]])
      \<lparr>recent_modified_files := [''/opt/agent/demo_sandbox/f'']\<rparr>"

text \<open>
  What one successful \<^verbatim>\<open>encrypt_and_store\<close> of the path \<open>p\<close> does between the
  states \<open>w\<close> and \<open>w1\<close>: the file was read, its content encrypted under the nonce
  drawn, and nonce and ciphertext were written, one after the other, under the backup
  directory, to the name of \<open>p\<close> followed by the time stamp and \<^verbatim>\<open>.enc\<close>; no other
  file has changed.
\<close>

definition persisted :: "env \<Rightarrow> path \<Rightarrow> world \<Rightarrow> world \<Rightarrow> bool" where
  "persisted e p w w1 =
    (case files w p of
       None \<Rightarrow> False
     | Some data \<Rightarrow>
         (case aesgcm_encrypt e (token_bytes e (draws w)) data of
            None \<Rightarrow> False
          | Some ct \<Rightarrow>
              files w1 =
                (files w)(joinpath (BACKUP_DIR e)
                            (path_name p @ ''.'' @ strftime e (clock e (ticks w)) @ ''.enc'')
                          \<mapsto> token_bytes e (draws w) @ ct)))"

text \<open>
  One pass of the snapshot loop on the path \<open>p\<close>, from the list and state before it to
  the list and state after it: a failure leaves the list as it was, a success adds one
  entry and has persisted \<open>p\<close>.
\<close>

definition snapshot_step ::
    "env \<Rightarrow> path \<Rightarrow> string list \<times> world \<Rightarrow> string list \<times> world \<Rightarrow> bool" where
  "snapshot_step e p before after =
    (case encrypt_and_store e p (snd before) of
       (Inl err, w1) \<Rightarrow> after = (fst before, w1)
     | (Inr u, w1) \<Rightarrow>
         snd after = w1 \<and> length (fst after) = Suc (length (fst before))
         \<and> take (length (fst before)) (fst after) = fst before
         \<and> persisted e p (snd before) w1)"

text \<open>
  An example state for the snapshot: twenty-one entries in the log, of which only the
  most recent one exists.
\<close>

definition many_logged :: world where
  "many_logged =
    (start_world [''/opt/agent/demo_sandbox/f21'' \<mapsto> [0, 1]])
      \<lparr>recent_modified_files :=
         [''/opt/agent/demo_sandbox/f01'', ''/opt/agent/demo_sandbox/f02'',
          ''/opt/agent/demo_sandbox/f03'', ''/opt/agent/demo_sandbox/f04'',
          ''/opt/agent/demo_sandbox/f05'', ''/opt/agent/demo_sandbox/f06'',
          ''/opt/agent/demo_sandbox/f07'', ''/opt/agent/demo_sandbox/f08'',
          ''/opt/agent/demo_sandbox/f09'', ''/opt/agent/demo_sandbox/f10'',
          ''/opt/agent/demo_sandbox/f11'', ''/opt/agent/demo_sandbox/f12'',
          ''/opt/agent/demo_sandbox/f13'', ''/opt/agent/demo_sandbox/f14'',
          ''/opt/agent/demo_sandbox/f15'', ''/opt/agent/demo_sandbox/f16'',
          ''/opt/agent/demo_sandbox/f17'', ''/opt/agent/demo_sandbox/f18'',
          ''/opt/agent/demo_sandbox/f19'', ''/opt/agent/demo_sandbox/f20'',
          ''/opt/agent/demo_sandbox/f21'']\<rparr>"








chapter \<open>The properties\<close>

section \<open>What the primitive effects change\<close>










lemma mkdir_files: "mkdir e d w = (b, w1) \<Longrightarrow> files w1 = files w"
  by (auto simp: mkdir_def io_next_def split: outcome.splits)

lemma int_time_time_files: "int_time_time e w = (s, w1) \<Longrightarrow> files w1 = files w"
  by (auto simp: int_time_time_def Let_def)

lemma copy2_False: "copy2 e src dst w = (False, w1) \<Longrightarrow> files w1 src = files w src"
  by (auto simp: copy2_def io_next_def split: if_splits outcome.splits option.splits)

lemma copy2_True:
  "copy2 e src dst w = (True, w1) \<Longrightarrow>
   src \<noteq> dst \<and> files w src \<noteq> None \<and> files w1 = (files w)(dst := files w src)"
  by (auto simp: copy2_def io_next_def split: if_splits outcome.splits option.splits)

lemma unlink_False: "unlink e p w = (False, w1) \<Longrightarrow> files w1 = files w"
  by (auto simp: unlink_def io_next_def split: outcome.splits)

lemma unlink_True: "unlink e p w = (True, w1) \<Longrightarrow> files w1 = (files w)(p := None)"
  by (auto simp: unlink_def io_next_def split: outcome.splits)

lemma path_exists_globals: "path_exists e p w = (r, w1) \<Longrightarrow> agent_globals w1 = agent_globals w"
  by (auto simp: path_exists_def io_next_def agent_globals_def split: outcome.splits)

lemma str_int_0: "str_int 0 = ''0''"
  by code_simp

lemma example_clock: "clock example_env n = int n * 1000000"
  by (simp add: example_env_def)

lemma example_fields:
  "base_dir example_env = ''/opt/agent''"
  "token_bytes example_env n = replicate 12 (of_nat n)"
  "aesgcm_encrypt example_env nonce data = Some (data @ replicate 16 0)"
  "strftime example_env t = str_int (t div 1000000)"
  "isoformat example_env t = str_int (t div 1000000)"
  by (simp_all add: example_env_def)

section \<open>What the actions and the detectors change\<close>





section \<open>When the counter returns\<close>

lemma prune_eq:
  "prune now c = (if cutoff_ok (window c) now then Inr (pruned c now) else Inl OverflowError)"
  by (simp add: prune_def datetime_sub_def cutoff_ok_def pruned_def)

lemma count_eq:
  "count now c =
    (if cutoff_ok (window c) now then (Inr (length (events (pruned c now))), pruned c now)
     else (Inl OverflowError, c))"
  by (simp add: count_def prune_eq)

lemma add_eq:
  "add t now c =
    (if cutoff_ok (window c) now then (Inr (), pruned (c\<lparr>events := events c @ [t]\<rparr>) now)
     else (Inl OverflowError, c\<lparr>events := events c @ [t]\<rparr>))"
  by (simp add: add_def prune_eq)

lemma window_pruned [simp]: "window (pruned c t) = window c"
  by (simp add: pruned_def)

lemma length_pruned: "length (events (pruned c t)) \<le> length (events c)"
  by (simp add: pruned_def length_dropWhile_le)

lemma file_mod_count_eq:
  "file_mod_count e w =
    (if cutoff_ok (window (file_mod_counter w)) (clock e (ticks w))
     then (Inr (length (events (pruned (file_mod_counter w) (clock e (ticks w))))),
           w\<lparr>ticks := Suc (ticks w),
             file_mod_counter := pruned (file_mod_counter w) (clock e (ticks w))\<rparr>)
     else (Inl OverflowError, w\<lparr>ticks := Suc (ticks w)\<rparr>))"
  by (simp add: file_mod_count_def utcnow_def count_eq)

lemma rename_count_eq:
  "rename_count e w =
    (if cutoff_ok (window (rename_counter w)) (clock e (ticks w))
     then (Inr (length (events (pruned (rename_counter w) (clock e (ticks w))))),
           w\<lparr>ticks := Suc (ticks w),
             rename_counter := pruned (rename_counter w) (clock e (ticks w))\<rparr>)
     else (Inl OverflowError, w\<lparr>ticks := Suc (ticks w)\<rparr>))"
  by (simp add: rename_count_def utcnow_def count_eq)

section \<open>What the detectors change\<close>

lemma looked_refl: "looked w w"
proof -
  have "file_mod_counter w = foldl pruned (file_mod_counter w) []"
    and "rename_counter w = foldl pruned (rename_counter w) []" by simp_all
  then show ?thesis unfolding looked_def by blast
qed

lemma looked_trans:
  assumes "looked w w1" and "looked w1 w2"
  shows "looked w w2"
proof -
  from assms obtain ts rs ts' rs' where
    a: "file_mod_counter w1 = foldl pruned (file_mod_counter w) ts"
       "rename_counter w1 = foldl pruned (rename_counter w) rs"
       "file_mod_counter w2 = foldl pruned (file_mod_counter w1) ts'"
       "rename_counter w2 = foldl pruned (rename_counter w1) rs'"
    unfolding looked_def by blast
  have "file_mod_counter w2 = foldl pruned (file_mod_counter w) (ts @ ts')"
    and "rename_counter w2 = foldl pruned (rename_counter w) (rs @ rs')"
    using a by simp_all
  then have "(\<exists>ts. file_mod_counter w2 = foldl pruned (file_mod_counter w) ts)
      \<and> (\<exists>rs. rename_counter w2 = foldl pruned (rename_counter w) rs)" by blast
  with assms show ?thesis unfolding looked_def by simp
qed

lemma looked_ticks_ios: "looked w (w\<lparr>ticks := n, ios := m\<rparr>)"
  using looked_refl[of w] unfolding looked_def by simp


lemma looked_ios: "looked w (w\<lparr>ios := n\<rparr>)"
  using looked_refl[of w] unfolding looked_def by simp





lemma path_exists_world: "snd (path_exists e p w) = w\<lparr>ios := Suc (ios w)\<rparr>"
  by (simp add: path_exists_def io_next_def split: outcome.splits)

lemma ransom_note_loop_looked: "looked w (snd (ransom_note_loop e ps w))"
proof (induction ps arbitrary: w)
  case Nil
  then show ?case by (simp add: looked_refl)
next
  case (Cons p ps)
  obtain r w1 where pe: "path_exists e p w = (r, w1)" by fastforce
  with path_exists_world[of e p w] have w1: "w1 = w\<lparr>ios := Suc (ios w)\<rparr>" by simp
  have l1: "looked w w1" unfolding w1 by (rule looked_ios)
  have l2: "looked w (snd (ransom_note_loop e ps w1))"
    using looked_trans[OF l1 Cons.IH[of w1]] .
  show ?case using pe l1 l2 by (simp split: sum.splits bool.splits)
qed

lemma detect_ransom_note_looked: "looked w (snd (detect_ransom_note_score e w))"
  by (simp add: detect_ransom_note_score_def ransom_note_loop_looked)

lemma entropy_scores_world: "snd (entropy_scores e thr ps w) = w\<lparr>ios := ios w + length ps\<rparr>"
proof (induction ps arbitrary: w)
  case Nil
  then show ?case by simp
next
  case (Cons p ps)
  have r: "snd (read_file e p w) = w\<lparr>ios := Suc (ios w)\<rparr>"
    by (simp add: read_file_def io_next_def split: outcome.splits)
  obtain d w1 where rf: "read_file e p w = (d, w1)" by fastforce
  with r have w1: "w1 = w\<lparr>ios := Suc (ios w)\<rparr>" by simp
  show ?case
  proof (cases d)
    case None
    with rf show ?thesis using Cons.IH[of w1] by (simp add: w1)
  next
    case (Some data)
    with rf show ?thesis using Cons.IH[of w1]
      by (cases "entropy_scores e thr ps w1") (simp add: w1 split: option.splits)
  qed
qed

lemma detect_entropy_world:
  "snd (detect_entropy_score e w) = w\<lparr>ios := ios w + length (take 5 (recent_modified_files w))\<rparr>"
  using entropy_scores_world[of e "runtime_config w ENTROPY_THRESHOLD"
      "take 5 (recent_modified_files w)" w]
  by (cases "entropy_scores e (runtime_config w ENTROPY_THRESHOLD)
        (take 5 (recent_modified_files w)) w") (simp add: detect_entropy_score_def)




section \<open>The sliding-window counter counts the window\<close>

lemma dropWhile_dropWhile_weaker:
  "(\<And>x. Q x \<Longrightarrow> P x) \<Longrightarrow> dropWhile P (dropWhile Q xs) = dropWhile P xs"
  by (induction xs) auto

lemma recorded_snoc_Add: "recorded (cs @ [Add t now]) = recorded cs @ [t]"
  by (induction cs rule: recorded.induct) auto

lemma recorded_snoc_Count: "recorded (cs @ [Count now]) = recorded cs"
  by (induction cs rule: recorded.induct) auto

lemma recorded_subset_times: "set (recorded cs) \<subseteq> set (calls_times cs)"
  by (induction cs rule: recorded.induct) (auto simp: calls_times_def)

lemma counter_inv_Count:
  assumes inv: "counter_inv d cs c" and srt: "sorted (calls_times (cs @ [Count now]))"
  shows "counter_inv d (cs @ [Count now]) (pruned c now)"
proof -
  have w: "window c = d" using inv by (simp add: counter_inv_def)
  have sub: "list_all (\<lambda>x. x \<in> set (recorded cs)) (events c)"
    using inv by (simp add: counter_inv_def)
  have "list_all (\<lambda>x. x \<in> set (recorded cs)) (dropWhile (\<lambda>t. t < now - d) (events c))"
    using sub by (auto simp: list_all_iff dest: set_dropWhileD)
  moreover have "dropWhile (\<lambda>t. t < T - d) (dropWhile (\<lambda>t. t < now - d) (events c))
      = filter (\<lambda>t. T - d \<le> t) (recorded cs)"
    if T: "list_all (\<lambda>t. t \<le> T) (calls_times (cs @ [Count now]))" for T
  proof -
    have "now \<le> T" and old: "list_all (\<lambda>t. t \<le> T) (calls_times cs)"
      using T by (simp_all add: calls_times_def)
    then have "dropWhile (\<lambda>t. t < T - d) (dropWhile (\<lambda>t. t < now - d) (events c))
        = dropWhile (\<lambda>t. t < T - d) (events c)"
      by (intro dropWhile_dropWhile_weaker) simp
    with inv old show ?thesis by (simp add: counter_inv_def)
  qed
  ultimately show ?thesis
    by (simp add: counter_inv_def pruned_def w recorded_snoc_Count)
qed

lemma counter_inv_Add:
  assumes inv: "counter_inv d cs c" and srt: "sorted (calls_times (cs @ [Add t now]))"
  shows "counter_inv d (cs @ [Add t now]) (pruned (c\<lparr>events := events c @ [t]\<rparr>) now)"
proof -
  have w: "window c = d" using inv by (simp add: counter_inv_def)
  have sub: "list_all (\<lambda>x. x \<in> set (recorded cs)) (events c)"
    using inv by (simp add: counter_inv_def)
  have le_t: "x \<le> t" if "x \<in> set (events c)" for x
  proof -
    have "x \<in> set (calls_times cs)"
      using that sub recorded_subset_times by (auto simp: list_all_iff)
    then show ?thesis using srt by (auto simp: calls_times_def sorted_append)
  qed
  have "list_all (\<lambda>x. x \<in> set (recorded cs @ [t])) (dropWhile (\<lambda>x. x < now - d) (events c @ [t]))"
    using sub by (auto simp: list_all_iff dest!: set_dropWhileD)
  moreover have "dropWhile (\<lambda>x. x < T - d) (dropWhile (\<lambda>x. x < now - d) (events c @ [t]))
      = filter (\<lambda>x. T - d \<le> x) (recorded cs @ [t])"
    if T: "list_all (\<lambda>x. x \<le> T) (calls_times (cs @ [Add t now]))" for T
  proof -
    have "now \<le> T" and old: "list_all (\<lambda>x. x \<le> T) (calls_times cs)"
      using T by (simp_all add: calls_times_def)
    then have "dropWhile (\<lambda>x. x < T - d) (dropWhile (\<lambda>x. x < now - d) (events c @ [t]))
        = dropWhile (\<lambda>x. x < T - d) (events c @ [t])"
      by (intro dropWhile_dropWhile_weaker) simp
    also have "\<dots> = filter (\<lambda>x. T - d \<le> x) (recorded cs) @ filter (\<lambda>x. T - d \<le> x) [t]"
    proof (cases "\<forall>x\<in>set (events c). x < T - d")
      case True
      then have "dropWhile (\<lambda>x. x < T - d) (events c) = []" by simp
      with inv old have "filter (\<lambda>x. T - d \<le> x) (recorded cs) = []"
        by (simp add: counter_inv_def)
      with True show ?thesis by (simp add: dropWhile_append2)
    next
      case False
      then obtain x where x: "x \<in> set (events c)" "T - d \<le> x" by force
      with le_t have "T - d \<le> t" by force
      moreover have "dropWhile (\<lambda>x. x < T - d) (events c @ [t])
          = dropWhile (\<lambda>x. x < T - d) (events c) @ [t]"
        using x by (intro dropWhile_append1[of x]) auto
      ultimately show ?thesis using inv old by (simp add: counter_inv_def)
    qed
    finally show ?thesis by simp
  qed
  ultimately show ?thesis
    by (simp add: counter_inv_def pruned_def w recorded_snoc_Add)
qed

lemma run_calls_snoc:
  "run_calls c (xs @ [x]) = (case run_calls c xs of Inl err \<Rightarrow> Inl err | Inr c' \<Rightarrow> run_call c' x)"
  by (induction xs arbitrary: c) (auto split: sum.splits)

lemma counter_inv_run:
  assumes "window c0 = d" and "events c0 = []"
  shows "sorted (calls_times cs) \<Longrightarrow> list_all (cutoff_ok d) (map cutoff_time cs)
    \<Longrightarrow> \<exists>c. run_calls c0 cs = Inr c \<and> counter_inv d cs c"
proof (induction cs rule: rev_induct)
  case Nil
  then show ?case using assms by (simp add: counter_inv_def)
next
  case (snoc x xs)
  then have srt: "sorted (calls_times xs)" and ok: "list_all (cutoff_ok d) (map cutoff_time xs)"
    by (simp_all add: calls_times_def sorted_append)
  from snoc.IH[OF srt ok] obtain c where c: "run_calls c0 xs = Inr c" "counter_inv d xs c"
    by blast
  have w: "window c = d" using c by (simp add: counter_inv_def)
  show ?case
  proof (cases x)
    case (Add t now)
    then have "cutoff_ok d now" using snoc.prems by simp
    then have "run_calls c0 (xs @ [x]) = Inr (pruned (c\<lparr>events := events c @ [t]\<rparr>) now)"
      using c w Add by (simp add: run_calls_snoc add_eq)
    moreover have "counter_inv d (xs @ [x]) (pruned (c\<lparr>events := events c @ [t]\<rparr>) now)"
      using counter_inv_Add[OF c(2)] snoc.prems Add by simp
    ultimately show ?thesis by blast
  next
    case (Count now)
    then have "cutoff_ok d now" using snoc.prems by simp
    then have "run_calls c0 (xs @ [x]) = Inr (pruned c now)"
      using c w Count by (simp add: run_calls_snoc count_eq)
    moreover have "counter_inv d (xs @ [x]) (pruned c now)"
      using counter_inv_Count[OF c(2)] snoc.prems Count by simp
    ultimately show ?thesis by blast
  qed
qed

text \<open>
  Claim C3, as it holds of the code. For every window length \<open>W\<close> that
  \<^verbatim>\<open>timedelta\<close> accepts (\<open>d\<close> microseconds) and every history \<open>cs\<close> of \<^verbatim>\<open>add\<close> and
  \<^verbatim>\<open>count\<close> calls on a fresh counter: when the clock readings, taken in the order
  they were made, do not go backwards, and the cutoff \<open>now - W\<close> is a \<^verbatim>\<open>datetime\<close> at
  every call, then every call returns, and a \<^verbatim>\<open>count\<close> at time \<open>now\<close> returns
  exactly the number of recorded timestamps in \<open>[now - W, now]\<close>; a timestamp older
  than that is in no later count.
\<close>

theorem sliding_window_count:
  assumes "timedelta_seconds W = Inr d"
    and "sorted (concat (map call_times cs) @ [now])"
    and "list_all (cutoff_ok d) (map cutoff_time cs @ [now])"
  shows "\<exists>c0 c. new_counter W = Inr c0 \<and> run_calls c0 cs = Inr c
       \<and> fst (count now c) = Inr (length (filter (in_window d now) (recorded cs)))"
proof -
  have n: "new_counter W = Inr \<lparr>window = d, events = []\<rparr>"
    using assms(1) by (simp add: new_counter_def)
  have srt: "sorted (calls_times cs)" and le: "list_all (\<lambda>t. t \<le> now) (calls_times cs)"
    using assms(2) by (auto simp: calls_times_def sorted_append list_all_iff)
  have ok: "list_all (cutoff_ok d) (map cutoff_time cs)" and okn: "cutoff_ok d now"
    using assms(3) by simp_all
  from counter_inv_run[of "\<lparr>window = d, events = []\<rparr>" d cs, OF _ _ srt ok]
  obtain c where c: "run_calls \<lparr>window = d, events = []\<rparr> cs = Inr c" "counter_inv d cs c"
    by auto
  from c(2) le have w: "window c = d"
    and dw: "dropWhile (\<lambda>t. t < now - d) (events c) = filter (\<lambda>t. now - d \<le> t) (recorded cs)"
    by (simp_all add: counter_inv_def)
  have "filter (\<lambda>t. now - d \<le> t) (recorded cs) = filter (in_window d now) (recorded cs)"
    using le recorded_subset_times[of cs]
    by (intro filter_cong) (auto simp: in_window_def list_all_iff)
  with dw w okn have "fst (count now c) = Inr (length (filter (in_window d now) (recorded cs)))"
    by (simp add: count_eq pruned_def)
  with n c(1) show ?thesis by blast
qed

text \<open>
  A run with a 15 second window: events at seconds 1, 4 and 6, a count at second 5,
  and a count at second 20 that sees only the event of second 6.
\<close>

theorem sliding_window_count_witness:
  "timedelta_seconds (PyInt 15) = Inr 15000000
   \<and> sorted (concat (map call_times
      [Add 1000000 1000001, Add 4000000 4000002, Count 5000000, Add 6000000 6000000]) @ [20000000])
   \<and> list_all (cutoff_ok 15000000) (map cutoff_time
      [Add 1000000 1000001, Add 4000000 4000002, Count 5000000, Add 6000000 6000000] @ [20000000])
   \<and> (\<exists>c0 c. new_counter (PyInt 15) = Inr c0
        \<and> run_calls c0 [Add 1000000 1000001, Add 4000000 4000002, Count 5000000, Add 6000000 6000000]
            = Inr c
        \<and> fst (count 20000000 c) = Inr 1)"
proof -
  have a: "timedelta_seconds (PyInt 15) = Inr 15000000"
    by (simp add: timedelta_of_def TIMEDELTA_MIN_def TIMEDELTA_MAX_def)
  have b: "sorted (concat (map call_times
      [Add 1000000 1000001, Add 4000000 4000002, Count 5000000, Add 6000000 6000000]) @ [20000000])"
    by simp
  have c: "list_all (cutoff_ok 15000000) (map cutoff_time
      [Add 1000000 1000001, Add 4000000 4000002, Count 5000000, Add 6000000 6000000] @ [20000000])"
    by (simp add: cutoff_ok_def DATETIME_MIN_def DATETIME_MAX_def)
  have d: "length (filter (in_window 15000000 20000000) (recorded
      [Add 1000000 1000001, Add 4000000 4000002, Count 5000000, Add 6000000 6000000])) = 1"
    by (simp add: in_window_def)
  from sliding_window_count[OF a b c] a b c show ?thesis unfolding d by blast
qed

text \<open>
  Claim C3 as it is worded fails in two ways. When the clock steps back between two
  \<^verbatim>\<open>add\<close> calls (readings of second 10, then of second 5), the older event stands
  behind the newer one in the deque and is never popped: a count at second 21 with a
  15 second window returns 2, and only the event of second 10 lies in the window.
  And a window of \<open>10^12\<close> seconds is accepted by the constructor, but every
  \<^verbatim>\<open>count\<close> raises \<^verbatim>\<open>OverflowError\<close>, as the cutoff is before the year 1.
\<close>

theorem sliding_window_counterexample:
  "(\<exists>c0 c. new_counter (PyInt 15) = Inr c0
      \<and> run_calls c0 [Add 10000000 10000000, Add 5000000 5000000] = Inr c
      \<and> fst (count 21000000 c) = Inr 2
      \<and> length (filter (in_window 15000000 21000000)
           (recorded [Add 10000000 10000000, Add 5000000 5000000])) = 1)
   \<and> (\<exists>c0. new_counter (PyInt 1000000000000) = Inr c0
      \<and> fst (count 1700000000000000 c0) = Inl OverflowError)"
  by (simp add: new_counter_def timedelta_of_def TIMEDELTA_MIN_def TIMEDELTA_MAX_def
      add_eq count_eq cutoff_ok_def pruned_def DATETIME_MIN_def DATETIME_MAX_def in_window_def)

section \<open>The administrative update\<close>

lemma key_of_inj: "key_of k = Some key \<Longrightarrow> key_of k' = Some key \<Longrightarrow> k = k'"
  by (auto simp: key_of_def split: if_splits)

lemma key_of_key_name: "key_of (key_name key) = Some key"
  by (cases key) (simp_all add: key_of_def)

lemma key_name_key_of: "key_of k = Some key \<Longrightarrow> key_name key = k"
  using key_of_inj[OF key_of_key_name] by blast

lemma py_coerce_is_int: "py_coerce e old v = Some x \<Longrightarrow> is_int x = is_int old"
  by (cases old) auto

lemma py_coerce_type_only: "is_int old = is_int old' \<Longrightarrow> py_coerce e old v = py_coerce e old' v"
  by (cases old; cases old') auto

lemma accepts_type_only:
  assumes "\<And>key. is_int (cfg key) = is_int (cfg' key)"
  shows "accepts e cfg item = accepts e cfg' item"
proof (cases "key_of (fst item)")
  case None
  then show ?thesis by (simp add: accepts_def)
next
  case (Some key)
  have "py_coerce e (cfg key) (snd item) = py_coerce e (cfg' key) (snd item)"
    using assms by (rule py_coerce_type_only)
  with Some show ?thesis by (simp add: accepts_def)
qed

lemma requested_type_only:
  assumes "\<And>key. is_int (cfg key) = is_int (cfg' key)"
  shows "requested e cfg items k = requested e cfg' items k"
proof (cases "key_of k")
  case None
  then show ?thesis by (simp add: requested_def split: option.splits)
next
  case (Some key)
  have "py_coerce e (cfg key) v = py_coerce e (cfg' key) v" for v
    using assms by (rule py_coerce_type_only)
  with Some show ?thesis by (simp add: requested_def split: option.splits)
qed

lemma dict_set_keys: "fst ` set (dict_set d k x) = insert k (fst ` set d)"
  by (induction d k x rule: dict_set.induct) auto

lemma dict_set_distinct: "distinct (map fst d) \<Longrightarrow> distinct (map fst (dict_set d k x))"
  by (induction d k x rule: dict_set.induct) (auto simp: dict_set_keys)

lemma map_of_dict_set: "map_of (dict_set d k x) k' = (if k' = k then Some x else map_of d k')"
  by (induction d k x rule: dict_set.induct) auto

text \<open>What a request of accepted items asks for.\<close>

lemma requested_Cons:
  "requested e cfg ((k, v) # kvs) k' =
    (case map_of (rev kvs) k' of
       Some v' \<Rightarrow> requested e cfg kvs k'
     | None \<Rightarrow> if k' = k then (case key_of k of None \<Rightarrow> None | Some key \<Rightarrow> py_coerce e (cfg key) v)
               else None)"
  by (auto simp: requested_def map_of_append map_add_def split: option.splits)

lemma requested_None: "map_of (rev kvs) k' = None \<Longrightarrow> requested e cfg kvs k' = None"
  by (simp add: requested_def)

lemma requested_accepted:
  assumes "list_all (accepts e cfg) kvs" and "map_of (rev kvs) k' = Some v'"
  shows "requested e cfg kvs k' \<noteq> None"
proof -
  have "(k', v') \<in> set kvs" using map_of_SomeD[OF assms(2)] by simp
  with assms(1) have "accepts e cfg (k', v')" by (auto simp: list_all_iff)
  with assms(2) show ?thesis by (auto simp: requested_def accepts_def split: option.splits)
qed

lemma requested_dom:
  assumes "list_all (accepts e cfg) kvs"
  shows "(requested e cfg kvs k \<noteq> None) = (k \<in> set (map fst kvs))"
proof (cases "map_of (rev kvs) k")
  case None
  then have "k \<notin> fst ` set (rev kvs)" by (simp add: map_of_eq_None_iff)
  with None show ?thesis by (simp add: requested_None)
next
  case (Some v)
  then have "(k, v) \<in> set kvs" using map_of_SomeD[OF Some] by simp
  then have "k \<in> set (map fst kvs)" by force
  with requested_accepted[OF assms Some] show ?thesis by simp
qed

text \<open>Success of the loop.\<close>

lemma set_rates_loop_ok:
  "set_rates_loop e items cfg upd = (Inr updated, cfg') \<Longrightarrow>
   distinct (map fst upd) \<Longrightarrow>
     list_all (accepts e cfg) items
   \<and> distinct (map fst updated)
   \<and> (\<forall>k. map_of updated k
          = (case requested e cfg items k of Some x \<Rightarrow> Some x | None \<Rightarrow> map_of upd k))
   \<and> cfg' = config_after e cfg items
   \<and> (\<forall>key. is_int (cfg' key) = is_int (cfg key))"
proof (induction e items cfg upd rule: set_rates_loop.induct)
  case (1 e cfg updated')
  then show ?case by (auto simp: requested_def config_after_def)
next
  case (2 e k v kvs cfg upd)
  from "2.prems"(1) obtain key x where key: "key_of k = Some key"
    and x: "py_coerce e (cfg key) v = Some x"
    and rest: "set_rates_loop e kvs (cfg(key := x)) (dict_set upd k x) = (Inr updated, cfg')"
    by (auto split: option.splits)
  note IH = "2.IH"[OF key x rest dict_set_distinct[OF "2.prems"(2)]]
  from IH have IH_acc: "list_all (accepts e (cfg(key := x))) kvs"
    and IH_dist: "distinct (map fst updated)"
    and IH_map: "\<And>k'. map_of updated k'
          = (case requested e (cfg(key := x)) kvs k' of Some y \<Rightarrow> Some y
             | None \<Rightarrow> map_of (dict_set upd k x) k')"
    and IH_cfg: "cfg' = config_after e (cfg(key := x)) kvs"
    and IH_ty: "\<And>key'. is_int (cfg' key') = is_int ((cfg(key := x)) key')"
    by blast+
  have types: "is_int ((cfg(key := x)) key') = is_int (cfg key')" for key'
    using py_coerce_is_int[OF x] by simp
  have same: "accepts e (cfg(key := x)) item = accepts e cfg item" for item
    using accepts_type_only[of "cfg(key := x)" cfg e item] types by blast
  have rsame: "requested e (cfg(key := x)) kvs k' = requested e cfg kvs k'" for k'
    using requested_type_only[of "cfg(key := x)" cfg e kvs k'] types by blast
  have acc_k: "accepts e cfg (k, v)" using key x by (simp add: accepts_def)
  have acc_rest: "list_all (accepts e cfg) kvs"
    using IH_acc unfolding list_all_iff same .
  have req: "requested e cfg ((k, v) # kvs) k'
      = (case requested e cfg kvs k' of Some y \<Rightarrow> Some y
         | None \<Rightarrow> if k' = k then Some x else None)" for k'
  proof (cases "map_of (rev kvs) k'")
    case None
    then show ?thesis using key x by (simp add: requested_Cons requested_None)
  next
    case (Some v')
    from requested_accepted[OF acc_rest Some] obtain y where "requested e cfg kvs k' = Some y"
      by blast
    with Some show ?thesis by (simp add: requested_Cons)
  qed
  have m: "map_of updated k'
      = (case requested e cfg ((k, v) # kvs) k' of Some y \<Rightarrow> Some y | None \<Rightarrow> map_of upd k')"
    for k'
    unfolding IH_map[of k'] rsame req map_of_dict_set
    by (simp split: option.splits)
  have c: "cfg' key' = config_after e cfg ((k, v) # kvs) key'" for key'
  proof (cases "key' = key")
    case True
    then have "key_name key' = k" using key_name_key_of[OF key] by simp
    then show ?thesis unfolding IH_cfg config_after_def rsame req[of "key_name key'"]
      using True by (simp split: option.splits)
  next
    case False
    then have "key_name key' \<noteq> k" using key key_of_key_name[of key'] by auto
    then show ?thesis unfolding IH_cfg config_after_def rsame req[of "key_name key'"]
      using False by (simp split: option.splits)
  qed
  have ty: "is_int (cfg' key') = is_int (cfg key')" for key'
    using IH_ty[of key'] types[of key'] by simp
  have "cfg' = config_after e cfg ((k, v) # kvs)" using c by blast
  with acc_k acc_rest IH_dist m ty show ?case by simp
qed

text \<open>Rejection by the loop.\<close>

lemma set_rates_loop_rejects:
  "set_rates_loop e items cfg upd = (Inl msg, cfg') \<Longrightarrow>
   \<exists>pre k v post upd'.
     items = pre @ (k, v) # post
     \<and> list_all (accepts e cfg) pre
     \<and> \<not> accepts e cfg (k, v)
     \<and> msg = (if key_of k = None then ''unknown key '' @ k else ''invalid value for '' @ k)
     \<and> set_rates_loop e pre cfg upd = (Inr upd', cfg')"
proof (induction e items cfg upd rule: set_rates_loop.induct)
  case (1 e cfg updated)
  then show ?case by simp
next
  case (2 e k v kvs cfg upd)
  show ?case
  proof (cases "accepts e cfg (k, v)")
    case False
    then have "msg = (if key_of k = None then ''unknown key '' @ k else ''invalid value for '' @ k)"
      and "cfg' = cfg"
      using "2.prems" by (auto simp: accepts_def split: option.splits)
    with False show ?thesis
      by (intro exI[of _ "[]"] exI[of _ k] exI[of _ v] exI[of _ kvs] exI[of _ upd]) simp
  next
    case True
    then obtain key x where key: "key_of k = Some key"
      and x: "py_coerce e (cfg key) v = Some x"
      by (auto simp: accepts_def split: option.splits)
    with "2.prems" have rest: "set_rates_loop e kvs (cfg(key := x)) (dict_set upd k x) = (Inl msg, cfg')"
      by simp
    from "2.IH"[OF key x rest] obtain pre k' v' post upd' where
      p: "kvs = pre @ (k', v') # post" "list_all (accepts e (cfg(key := x))) pre"
         "\<not> accepts e (cfg(key := x)) (k', v')"
         "msg = (if key_of k' = None then ''unknown key '' @ k' else ''invalid value for '' @ k')"
         "set_rates_loop e pre (cfg(key := x)) (dict_set upd k x) = (Inr upd', cfg')"
      by blast
    have types: "is_int ((cfg(key := x)) key') = is_int (cfg key')" for key'
      using py_coerce_is_int[OF x] by simp
    have same: "accepts e (cfg(key := x)) item = accepts e cfg item" for item
      using accepts_type_only[of "cfg(key := x)" cfg e item] types by blast
    have A: "(k, v) # kvs = ((k, v) # pre) @ (k', v') # post" using p(1) by simp
    have B: "list_all (accepts e cfg) ((k, v) # pre)"
      using p(2) True unfolding list_all_iff same by simp
    have C: "\<not> accepts e cfg (k', v')" using p(3) unfolding same .
    have D: "set_rates_loop e ((k, v) # pre) cfg upd = (Inr upd', cfg')"
      using p(5) key x by simp
    show ?thesis using A B C D p(4) by blast
  qed
qed

text \<open>The loop from the empty dict.\<close>

lemma set_rates_loop_start:
  assumes "set_rates_loop e items cfg [] = (Inr updated, cfg')"
  shows "list_all (accepts e cfg) items"
    and "distinct (map fst updated)"
    and "map_of updated = requested e cfg items"
    and "set (map fst updated) = set (map fst items)"
    and "cfg' = config_after e cfg items"
proof -
  from set_rates_loop_ok[OF assms]
  have a: "list_all (accepts e cfg) items" and d: "distinct (map fst updated)"
    and m: "\<And>k. map_of updated k
          = (case requested e cfg items k of Some x \<Rightarrow> Some x | None \<Rightarrow> map_of [] k)"
    and c: "cfg' = config_after e cfg items"
    by simp_all
  show "list_all (accepts e cfg) items" "distinct (map fst updated)"
    "cfg' = config_after e cfg items" using a d c by simp_all
  show mo: "map_of updated = requested e cfg items"
  proof
    fix k show "map_of updated k = requested e cfg items k"
      unfolding m[of k] by (simp split: option.splits)
  qed
  show "set (map fst updated) = set (map fst items)"
  proof (rule set_eqI)
    fix k
    have "(k \<in> set (map fst updated)) = (map_of updated k \<noteq> None)"
      by (simp add: map_of_eq_None_iff)
    also have "\<dots> = (k \<in> set (map fst items))"
      unfolding mo by (rule requested_dom[OF a])
    finally show "(k \<in> set (map fst updated)) = (k \<in> set (map fst items))" .
  qed
qed

lemma respond_cases:
  "respond updated = r \<Longrightarrow>
   (r = Response200 updated \<and> list_all (\<lambda>kv. json_compliant (snd kv)) updated)
   \<or> (r = Response500 \<and> \<not> list_all (\<lambda>kv. json_compliant (snd kv)) updated)"
  by (auto simp: respond_def split: if_splits)

lemma new_counter_cases:
  "(\<exists>x. timedelta_seconds W = Inl x \<and> new_counter W = Inl x)
   \<or> (\<exists>d. timedelta_seconds W = Inr d \<and> new_counter W = Inr \<lparr>window = d, events = []\<rparr>)"
  by (cases "timedelta_seconds W") (simp_all add: new_counter_def)

text \<open>The outcomes of \<^verbatim>\<open>set_rates\<close> on an object.\<close>

lemma set_rates_cases:
  assumes "set_rates e (JObj items) w = (r, w')"
  shows
   "(\<exists>msg cfg. set_rates_loop e items (runtime_config w) [] = (Inl msg, cfg)
      \<and> r = Response400 msg \<and> w' = w\<lparr>runtime_config := cfg\<rparr>)
   \<or> (\<exists>updated cfg. set_rates_loop e items (runtime_config w) [] = (Inr updated, cfg)
      \<and> ''TIME_WINDOW_SECONDS'' \<in> set (map fst updated)
      \<and> (\<exists>x. timedelta_seconds (cfg TIME_WINDOW_SECONDS) = Inl x)
      \<and> r = Response500 \<and> w' = w\<lparr>runtime_config := cfg\<rparr>)
   \<or> (\<exists>updated cfg d. set_rates_loop e items (runtime_config w) [] = (Inr updated, cfg)
      \<and> ''TIME_WINDOW_SECONDS'' \<in> set (map fst updated)
      \<and> timedelta_seconds (cfg TIME_WINDOW_SECONDS) = Inr d
      \<and> respond updated = r
      \<and> w' = w\<lparr>runtime_config := cfg, file_mod_counter := \<lparr>window = d, events = []\<rparr>,
                rename_counter := \<lparr>window = d, events = []\<rparr>\<rparr>)
   \<or> (\<exists>updated cfg. set_rates_loop e items (runtime_config w) [] = (Inr updated, cfg)
      \<and> ''TIME_WINDOW_SECONDS'' \<notin> set (map fst updated)
      \<and> respond updated = r \<and> w' = w\<lparr>runtime_config := cfg\<rparr>)"
proof (cases "set_rates_loop e items (runtime_config w) []")
  case (Pair res cfg)
  show ?thesis
  proof (cases res)
    case (Inl msg)
    with Pair assms show ?thesis by (simp add: set_rates_def)
  next
    case (Inr updated)
    show ?thesis
    proof (cases "''TIME_WINDOW_SECONDS'' \<in> set (map fst updated)")
      case False
      with Pair Inr assms have "respond updated = r" "w' = w\<lparr>runtime_config := cfg\<rparr>"
        by (simp_all add: set_rates_def)
      with Pair Inr False show ?thesis by blast
    next
      case True
      from new_counter_cases[of "cfg TIME_WINDOW_SECONDS"] show ?thesis
      proof (elim disjE exE conjE)
        fix x assume t: "timedelta_seconds (cfg TIME_WINDOW_SECONDS) = Inl x"
          and n: "new_counter (cfg TIME_WINDOW_SECONDS) = Inl x"
        from Pair Inr True assms n have "r = Response500" "w' = w\<lparr>runtime_config := cfg\<rparr>"
          by (simp_all add: set_rates_def)
        with Pair Inr True t show ?thesis by blast
      next
        fix d assume t: "timedelta_seconds (cfg TIME_WINDOW_SECONDS) = Inr d"
          and n: "new_counter (cfg TIME_WINDOW_SECONDS) = Inr \<lparr>window = d, events = []\<rparr>"
        from Pair Inr True assms n have "respond updated = r"
          "w' = w\<lparr>runtime_config := cfg, file_mod_counter := \<lparr>window = d, events = []\<rparr>,
                rename_counter := \<lparr>window = d, events = []\<rparr>\<rparr>"
          by (simp_all add: set_rates_def)
        with Pair Inr True t show ?thesis by blast
      qed
    qed
  qed
qed

text \<open>
  Claim C5. For every update request. When the body is an object, the items are
  taken in order, and an item is accepted when its key is a key of the configuration
  and its value coerces to the type of that key.

  The response is 400 exactly when some item is not accepted: the error text names
  the key of the first such item, and the configuration holds what the items before
  it asked for and is otherwise as it was.

  The response is 200 only when every item is accepted: \<^verbatim>\<open>updated\<close> is then the dict
  of exactly the keys of the request, each with the coercion of the last value given
  for it, and the configuration holds these values and is otherwise as it was.

  The response is 500 when every item is accepted and has been applied, and the
  handler raises afterwards: the new window is no \<^verbatim>\<open>timedelta\<close>, and then both
  counters are as they were, or a value of \<^verbatim>\<open>updated\<close> is not finite. It is also 500,
  with nothing changed, when the body is not an object.
\<close>

theorem set_rates_contract:
  assumes "set_rates e payload w = (r, w')"
  shows "case payload of
      JObj items \<Rightarrow>
        (case r of
           Response200 updated \<Rightarrow>
             list_all (accepts e (runtime_config w)) items
             \<and> distinct (map fst updated)
             \<and> set (map fst updated) = set (map fst items)
             \<and> map_of updated = requested e (runtime_config w) items
             \<and> runtime_config w' = config_after e (runtime_config w) items
             \<and> list_all (\<lambda>kv. json_compliant (snd kv)) updated
         | Response400 msg \<Rightarrow>
             (\<exists>pre k v post.
                items = pre @ (k, v) # post
                \<and> list_all (accepts e (runtime_config w)) pre
                \<and> \<not> accepts e (runtime_config w) (k, v)
                \<and> msg = (if key_of k = None then ''unknown key '' @ k
                         else ''invalid value for '' @ k)
                \<and> runtime_config w' = config_after e (runtime_config w) pre)
         | Response500 \<Rightarrow>
             list_all (accepts e (runtime_config w)) items
             \<and> runtime_config w' = config_after e (runtime_config w) items
             \<and> ((\<exists>x. ''TIME_WINDOW_SECONDS'' \<in> set (map fst items)
                     \<and> timedelta_seconds (runtime_config w' TIME_WINDOW_SECONDS) = Inl x
                     \<and> file_mod_counter w' = file_mod_counter w
                     \<and> rename_counter w' = rename_counter w)
                \<or> (\<exists>k x. requested e (runtime_config w) items k = Some x
                       \<and> json_compliant x = False)))
    | JNull \<Rightarrow> r = Response500 \<and> w' = w
    | JBool b \<Rightarrow> r = Response500 \<and> w' = w
    | JInt i \<Rightarrow> r = Response500 \<and> w' = w
    | JFloat f \<Rightarrow> r = Response500 \<and> w' = w
    | JStr s \<Rightarrow> r = Response500 \<and> w' = w
    | JArr xs \<Rightarrow> r = Response500 \<and> w' = w"
proof (cases payload)
  case (JObj items)
  have bad: "\<exists>k x. requested e (runtime_config w) items k = Some x \<and> json_compliant x = False"
    if loop: "set_rates_loop e items (runtime_config w) [] = (Inr updated, cfg)"
      and nc: "\<not> list_all (\<lambda>kv. json_compliant (snd kv)) updated" for updated cfg
  proof -
    from nc obtain k x where kx: "(k, x) \<in> set updated" "\<not> json_compliant x"
      by (auto simp: list_all_iff)
    have "map_of updated k = Some x"
      using set_rates_loop_start(2)[OF loop] kx(1) by simp
    then have "requested e (runtime_config w) items k = Some x"
      unfolding set_rates_loop_start(3)[OF loop] .
    with kx(2) show ?thesis by blast
  qed
  from set_rates_cases[OF assms[unfolded JObj]] have "case r of
           Response200 updated \<Rightarrow>
             list_all (accepts e (runtime_config w)) items
             \<and> distinct (map fst updated)
             \<and> set (map fst updated) = set (map fst items)
             \<and> map_of updated = requested e (runtime_config w) items
             \<and> runtime_config w' = config_after e (runtime_config w) items
             \<and> list_all (\<lambda>kv. json_compliant (snd kv)) updated
         | Response400 msg \<Rightarrow>
             (\<exists>pre k v post.
                items = pre @ (k, v) # post
                \<and> list_all (accepts e (runtime_config w)) pre
                \<and> \<not> accepts e (runtime_config w) (k, v)
                \<and> msg = (if key_of k = None then ''unknown key '' @ k
                         else ''invalid value for '' @ k)
                \<and> runtime_config w' = config_after e (runtime_config w) pre)
         | Response500 \<Rightarrow>
             list_all (accepts e (runtime_config w)) items
             \<and> runtime_config w' = config_after e (runtime_config w) items
             \<and> ((\<exists>x. ''TIME_WINDOW_SECONDS'' \<in> set (map fst items)
                     \<and> timedelta_seconds (runtime_config w' TIME_WINDOW_SECONDS) = Inl x
                     \<and> file_mod_counter w' = file_mod_counter w
                     \<and> rename_counter w' = rename_counter w)
                \<or> (\<exists>k x. requested e (runtime_config w) items k = Some x
                       \<and> json_compliant x = False))"
  proof (elim disjE exE conjE)
    fix msg cfg
    assume loop: "set_rates_loop e items (runtime_config w) [] = (Inl msg, cfg)"
      and r: "r = Response400 msg" and w': "w' = w\<lparr>runtime_config := cfg\<rparr>"
    from set_rates_loop_rejects[OF loop] obtain pre k v post upd' where
      p: "items = pre @ (k, v) # post" "list_all (accepts e (runtime_config w)) pre"
         "\<not> accepts e (runtime_config w) (k, v)"
         "msg = (if key_of k = None then ''unknown key '' @ k else ''invalid value for '' @ k)"
         "set_rates_loop e pre (runtime_config w) [] = (Inr upd', cfg)"
      by blast
    have "runtime_config w' = config_after e (runtime_config w) pre"
      using set_rates_loop_start(5)[OF p(5)] w' by simp
    with p(1-4) have "\<exists>pre k v post.
                items = pre @ (k, v) # post
                \<and> list_all (accepts e (runtime_config w)) pre
                \<and> \<not> accepts e (runtime_config w) (k, v)
                \<and> msg = (if key_of k = None then ''unknown key '' @ k
                         else ''invalid value for '' @ k)
                \<and> runtime_config w' = config_after e (runtime_config w) pre" by blast
    then show ?thesis unfolding r by simp
  next
    fix updated cfg x
    assume loop: "set_rates_loop e items (runtime_config w) [] = (Inr updated, cfg)"
      and mem: "''TIME_WINDOW_SECONDS'' \<in> set (map fst updated)"
      and t: "timedelta_seconds (cfg TIME_WINDOW_SECONDS) = Inl x"
      and r: "r = Response500" and w': "w' = w\<lparr>runtime_config := cfg\<rparr>"
    have "''TIME_WINDOW_SECONDS'' \<in> set (map fst items)"
      using mem unfolding set_rates_loop_start(4)[OF loop] .
    moreover have "runtime_config w' = config_after e (runtime_config w) items"
      using set_rates_loop_start(5)[OF loop] w' by simp
    moreover have "timedelta_seconds (runtime_config w' TIME_WINDOW_SECONDS) = Inl x"
      using t w' by simp
    moreover have "file_mod_counter w' = file_mod_counter w" "rename_counter w' = rename_counter w"
      using w' by simp_all
    ultimately show ?thesis unfolding r using set_rates_loop_start(1)[OF loop] by auto
  next
    fix updated cfg d
    assume loop: "set_rates_loop e items (runtime_config w) [] = (Inr updated, cfg)"
      and resp: "respond updated = r"
      and w': "w' = w\<lparr>runtime_config := cfg, file_mod_counter := \<lparr>window = d, events = []\<rparr>,
                rename_counter := \<lparr>window = d, events = []\<rparr>\<rparr>"
    have c: "runtime_config w' = config_after e (runtime_config w) items"
      using set_rates_loop_start(5)[OF loop] w' by simp
    from respond_cases[OF resp] show ?thesis
    proof (elim disjE conjE)
      assume "r = Response200 updated" "list_all (\<lambda>kv. json_compliant (snd kv)) updated"
      then show ?thesis using set_rates_loop_start(1-4)[OF loop] c by simp
    next
      assume "r = Response500" "\<not> list_all (\<lambda>kv. json_compliant (snd kv)) updated"
      then show ?thesis using set_rates_loop_start(1)[OF loop] c bad[OF loop] by simp
    qed
  next
    fix updated cfg
    assume loop: "set_rates_loop e items (runtime_config w) [] = (Inr updated, cfg)"
      and resp: "respond updated = r"
      and w': "w' = w\<lparr>runtime_config := cfg\<rparr>"
    have c: "runtime_config w' = config_after e (runtime_config w) items"
      using set_rates_loop_start(5)[OF loop] w' by simp
    from respond_cases[OF resp] show ?thesis
    proof (elim disjE conjE)
      assume "r = Response200 updated" "list_all (\<lambda>kv. json_compliant (snd kv)) updated"
      then show ?thesis using set_rates_loop_start(1-4)[OF loop] c by simp
    next
      assume "r = Response500" "\<not> list_all (\<lambda>kv. json_compliant (snd kv)) updated"
      then show ?thesis using set_rates_loop_start(1)[OF loop] c bad[OF loop] by simp
    qed
  qed
  then show ?thesis unfolding JObj by simp
qed (use assms in \<open>auto simp: set_rates_def\<close>)

lemma start_world_initial: "initial_world fs = Inr (start_world fs)"
  by (simp add: initial_world_def start_world_def new_counter_def timedelta_of_def
      TIMEDELTA_MIN_def TIMEDELTA_MAX_def)

text \<open>
  A request with a good key, an unknown key and another good key: the first is applied,
  the error names the second, the third is not applied.
\<close>

theorem set_rates_contract_witness:
  "set_rates example_env
      (JObj [(''FILES_MODIFIED_THRESHOLD'', JStr ''10''), (''BOGUS'', JInt 1), (''RENAMES_THRESHOLD'', JInt 7)])
      (start_world Map.empty)
    = (Response400 ''unknown key BOGUS'',
       (start_world Map.empty)\<lparr>runtime_config := default_config(FILES_MODIFIED_THRESHOLD := PyInt 10)\<rparr>)
   \<and> (\<exists>pre k v post.
         [(''FILES_MODIFIED_THRESHOLD'', JStr ''10''), (''BOGUS'', JInt 1), (''RENAMES_THRESHOLD'', JInt 7)]
           = pre @ (k, v) # post
         \<and> list_all (accepts example_env default_config) pre
         \<and> \<not> accepts example_env default_config (k, v)
         \<and> ''unknown key BOGUS''
             = (if key_of k = None then ''unknown key '' @ k else ''invalid value for '' @ k)
         \<and> default_config(FILES_MODIFIED_THRESHOLD := PyInt 10)
             = config_after example_env default_config pre)"
proof -
  have eq: "set_rates example_env
      (JObj [(''FILES_MODIFIED_THRESHOLD'', JStr ''10''), (''BOGUS'', JInt 1), (''RENAMES_THRESHOLD'', JInt 7)])
      (start_world Map.empty)
    = (Response400 ''unknown key BOGUS'',
       (start_world Map.empty)\<lparr>runtime_config := default_config(FILES_MODIFIED_THRESHOLD := PyInt 10)\<rparr>)"
    by (simp add: set_rates_def key_of_def start_world_def example_env_def parse_nat_def)
  from set_rates_contract[OF eq] eq show ?thesis
    by (simp add: start_world_def)
qed

text \<open>
  Claim C6, as it holds of the code. An update that is answered with 200 and whose
  request holds \<^verbatim>\<open>TIME_WINDOW_SECONDS\<close> replaces the file-rate and the rename counter
  by fresh, empty counters of the new window length, and leaves
  \<^verbatim>\<open>recent_modified_files\<close>, \<^verbatim>\<open>proc_writes\<close> and \<^verbatim>\<open>bytes_written_window\<close> as they
  were. A \<^verbatim>\<open>count()\<close> right afterwards returns 0 when its cutoff, the clock reading
  less the new window, is a \<^verbatim>\<open>datetime\<close>, and raises \<^verbatim>\<open>OverflowError\<close> when it is
  not.
\<close>

theorem time_window_update_resets_counters:
  assumes "set_rates e (JObj items) w = (Response200 updated, w')"
      and "''TIME_WINDOW_SECONDS'' \<in> set (map fst items)"
  shows "\<exists>d. timedelta_seconds (runtime_config w' TIME_WINDOW_SECONDS) = Inr d
     \<and> new_counter (runtime_config w' TIME_WINDOW_SECONDS) = Inr \<lparr>window = d, events = []\<rparr>
     \<and> file_mod_counter w' = \<lparr>window = d, events = []\<rparr>
     \<and> rename_counter w' = \<lparr>window = d, events = []\<rparr>
     \<and> map_of updated ''TIME_WINDOW_SECONDS'' = Some (runtime_config w' TIME_WINDOW_SECONDS)
     \<and> fst (count now (file_mod_counter w')) = (if cutoff_ok d now then Inr 0 else Inl OverflowError)
     \<and> fst (count now' (rename_counter w')) = (if cutoff_ok d now' then Inr 0 else Inl OverflowError)
     \<and> recent_modified_files w' = recent_modified_files w
     \<and> proc_writes w' = proc_writes w
     \<and> bytes_written_window w' = bytes_written_window w"
proof -
  from set_rates_cases[OF assms(1)] show ?thesis
  proof (elim disjE exE conjE)
    fix upd cfg d
    assume loop: "set_rates_loop e items (runtime_config w) [] = (Inr upd, cfg)"
      and t: "timedelta_seconds (cfg TIME_WINDOW_SECONDS) = Inr d"
      and resp: "respond upd = Response200 updated"
      and w': "w' = w\<lparr>runtime_config := cfg, file_mod_counter := \<lparr>window = d, events = []\<rparr>,
                rename_counter := \<lparr>window = d, events = []\<rparr>\<rparr>"
    have u: "upd = updated" using resp by (auto simp: respond_def split: if_splits)
    have "requested e (runtime_config w) items ''TIME_WINDOW_SECONDS'' \<noteq> None"
      using requested_dom[OF set_rates_loop_start(1)[OF loop]] assms(2) by simp
    then obtain x where x: "requested e (runtime_config w) items ''TIME_WINDOW_SECONDS'' = Some x"
      by blast
    have "cfg TIME_WINDOW_SECONDS = x"
      unfolding set_rates_loop_start(5)[OF loop] by (simp add: config_after_def x)
    moreover have "map_of updated ''TIME_WINDOW_SECONDS'' = Some x"
      using set_rates_loop_start(3)[OF loop] x u by simp
    ultimately have m: "map_of updated ''TIME_WINDOW_SECONDS'' = Some (runtime_config w' TIME_WINDOW_SECONDS)"
      using w' by simp
    have n: "new_counter (runtime_config w' TIME_WINDOW_SECONDS) = Inr \<lparr>window = d, events = []\<rparr>"
      using t w' by (simp add: new_counter_def)
    have "timedelta_seconds (runtime_config w' TIME_WINDOW_SECONDS) = Inr d" using t w' by simp
    with n m w' show ?thesis by (simp add: count_eq pruned_def)
  next
    fix upd cfg
    assume loop: "set_rates_loop e items (runtime_config w) [] = (Inr upd, cfg)"
      and nm: "''TIME_WINDOW_SECONDS'' \<notin> set (map fst upd)"
    with assms(2) show ?thesis unfolding set_rates_loop_start(4)[OF loop] by simp
  qed simp_all
qed

lemma one_created_eval:
  "one_created =
    \<lparr>files = Map.empty, ticks = 2, draws = 0, ios = 0,
     runtime_config = default_config,
     file_mod_counter = \<lparr>window = 15000000, events = [0]\<rparr>,
     bytes_written_window = [],
     rename_counter = \<lparr>window = 15000000, events = []\<rparr>,
     recent_modified_files = [''/opt/agent/demo_sandbox/a.txt''],
     proc_writes = [],
     ml_model = None\<rparr>"
  by (simp add: one_created_def start_world_def example_env_def on_created_def
      in_sandbox_def SANDBOX_DIR_def joinpath_def file_mod_add_def utcnow_def
      deque_append_def add_eq cutoff_ok_def pruned_def DATETIME_MIN_def DATETIME_MAX_def)

text \<open>
  The scenario of the specification: one file was created, then the window is set
  from 15 to 60 seconds.
\<close>

theorem time_window_update_witness:
  "set_rates example_env (JObj [(''TIME_WINDOW_SECONDS'', JInt 60)]) one_created
    = (Response200 [(''TIME_WINDOW_SECONDS'', PyInt 60)],
       one_created
         \<lparr>runtime_config := default_config(TIME_WINDOW_SECONDS := PyInt 60),
          file_mod_counter := \<lparr>window = 60000000, events = []\<rparr>,
          rename_counter := \<lparr>window = 60000000, events = []\<rparr>\<rparr>)
   \<and> fst (count 2000000 (file_mod_counter one_created)) = Inr 1
   \<and> recent_modified_files one_created = [''/opt/agent/demo_sandbox/a.txt'']
   \<and> fst (count 2000000 (file_mod_counter (snd (set_rates example_env
        (JObj [(''TIME_WINDOW_SECONDS'', JInt 60)]) one_created)))) = Inr 0
   \<and> recent_modified_files (snd (set_rates example_env
        (JObj [(''TIME_WINDOW_SECONDS'', JInt 60)]) one_created))
       = [''/opt/agent/demo_sandbox/a.txt'']"
proof -
  have eq: "set_rates example_env (JObj [(''TIME_WINDOW_SECONDS'', JInt 60)]) one_created
    = (Response200 [(''TIME_WINDOW_SECONDS'', PyInt 60)],
       one_created
         \<lparr>runtime_config := default_config(TIME_WINDOW_SECONDS := PyInt 60),
          file_mod_counter := \<lparr>window = 60000000, events = []\<rparr>,
          rename_counter := \<lparr>window = 60000000, events = []\<rparr>\<rparr>)"
    by (simp add: set_rates_def key_of_def one_created_eval new_counter_def timedelta_of_def
        TIMEDELTA_MIN_def TIMEDELTA_MAX_def respond_def)
  have w: "recent_modified_files one_created = [''/opt/agent/demo_sandbox/a.txt'']"
      "fst (count 2000000 (file_mod_counter one_created)) = Inr 1"
    by (simp_all add: one_created_eval count_eq cutoff_ok_def pruned_def
        DATETIME_MIN_def DATETIME_MAX_def)
  have ok: "cutoff_ok 60000000 2000000"
    by (simp add: cutoff_ok_def DATETIME_MIN_def DATETIME_MAX_def)
  from time_window_update_resets_counters[OF eq, of 2000000 2000000] eq w ok show ?thesis
    by (simp add: timedelta_of_def TIMEDELTA_MIN_def TIMEDELTA_MAX_def)
qed

text \<open>
  Claim C6 as it is worded fails for a long window. A window of \<open>10^12\<close> seconds is
  written to the configuration and answered with 200, and both counters are fresh;
  a \<^verbatim>\<open>count()\<close> right afterwards, at the next reading of a clock that stands in the
  year 2023, raises \<^verbatim>\<open>OverflowError\<close>, as its cutoff is before the year 1. A
  window of \<open>10^15\<close> seconds is written to the configuration too, but the request is
  answered with 500 and the counters are the old ones, with the old window.
\<close>

theorem time_window_update_counterexample:
  "fst (set_rates (example_env\<lparr>clock := \<lambda>n. 1700000000000000 + int n\<rparr>)
          (JObj [(''TIME_WINDOW_SECONDS'', JInt 1000000000000)]) one_created)
     = Response200 [(''TIME_WINDOW_SECONDS'', PyInt 1000000000000)]
   \<and> fst (file_mod_count (example_env\<lparr>clock := \<lambda>n. 1700000000000000 + int n\<rparr>)
        (snd (set_rates (example_env\<lparr>clock := \<lambda>n. 1700000000000000 + int n\<rparr>)
          (JObj [(''TIME_WINDOW_SECONDS'', JInt 1000000000000)]) one_created)))
     = Inl OverflowError
   \<and> fst (set_rates example_env
          (JObj [(''TIME_WINDOW_SECONDS'', JInt 1000000000000000)]) one_created)
     = Response500
   \<and> runtime_config (snd (set_rates example_env
          (JObj [(''TIME_WINDOW_SECONDS'', JInt 1000000000000000)]) one_created))
        TIME_WINDOW_SECONDS = PyInt 1000000000000000
   \<and> file_mod_counter (snd (set_rates example_env
          (JObj [(''TIME_WINDOW_SECONDS'', JInt 1000000000000000)]) one_created))
     = \<lparr>window = 15000000, events = [0]\<rparr>"
  by (simp add: set_rates_def key_of_def one_created_eval new_counter_def timedelta_of_def
      TIMEDELTA_MIN_def TIMEDELTA_MAX_def respond_def file_mod_count_eq cutoff_ok_def
      DATETIME_MIN_def DATETIME_MAX_def)

section \<open>The file-rate score\<close>

lemma FLOAT_LIMIT_pos: "1 < FLOAT_LIMIT"
  by (simp add: FLOAT_LIMIT_def)

lemma py_max_pos: "py_max a thr = Some d \<Longrightarrow> a \<le> d"
  by (cases "(a, thr)" rule: py_max.cases) auto

lemma ratio_score_small:
  assumes "\<bar>n\<bar> < FLOAT_LIMIT"
  shows "ratio_score n thr = Inr (capped (real_of_int n) (py_max 1 thr))"
proof -
  have "\<not> ratio_overflows n thr"
  proof (cases thr)
    case (PyInt i)
    have "\<bar>real_of_int n\<bar> \<le> \<bar>real_of_int n\<bar> * max 1 (real_of_int i)"
      by (simp add: mult_le_cancel_left1)
    then have "\<bar>real_of_int n\<bar> / max 1 (real_of_int i) \<le> \<bar>real_of_int n\<bar>"
      by (simp add: pos_divide_le_eq)
    moreover have "\<bar>real_of_int n\<bar> < real_of_int FLOAT_LIMIT"
      using assms by (metis of_int_abs of_int_less_iff)
    ultimately show ?thesis using PyInt by (simp add: ratio_overflows_def)
  next
    case (PyFloat f)
    then show ?thesis using assms by (simp add: ratio_overflows_def)
  qed
  then show ?thesis by (simp add: ratio_score_def)
qed

lemma capped_mono: "0 < a \<Longrightarrow> x \<le> y \<Longrightarrow> capped x (py_max a thr) \<le> capped y (py_max a thr)"
proof (cases "py_max a thr")
  case None
  then show ?thesis by (simp add: capped_def)
next
  case (Some d)
  assume "0 < a" "x \<le> y"
  with py_max_pos[OF Some] have "0 < d" by simp
  with \<open>x \<le> y\<close> have "x / d \<le> y / d" by (simp add: divide_right_mono)
  then show ?thesis using Some by (auto simp: capped_def min_def)
qed

lemma capped_unit: "0 < a \<Longrightarrow> 0 \<le> x \<Longrightarrow> 0 \<le> capped x (py_max a thr) \<and> capped x (py_max a thr) \<le> 1"
proof (cases "py_max a thr")
  case None
  then show ?thesis by (simp add: capped_def)
next
  case (Some d)
  assume "0 < a" "0 \<le> x"
  with py_max_pos[OF Some] have "0 < d" by simp
  with \<open>0 \<le> x\<close> have "0 \<le> x / d" by simp
  then show ?thesis using Some by (simp add: capped_def)
qed

lemma capped_le_1: "capped x d \<le> 1"
  by (simp add: capped_def split: option.splits)

lemma file_rate_score_eq:
  "fst (detect_file_rate_score e w)
   = (case fst (file_mod_count e w) of
        Inl x \<Rightarrow> Inl x
      | Inr n \<Rightarrow> ratio_score (int n) (runtime_config w FILES_MODIFIED_THRESHOLD))"
  by (simp add: detect_file_rate_score_def file_mod_count_eq)

text \<open>
  Claim C9, as it holds of the code. When \<^verbatim>\<open>count()\<close> returns, the \<^verbatim>\<open>file_rate\<close>
  score is \<open>min(1, count / max(1, threshold))\<close>; a count is below \<open>FLOAT_LIMIT\<close>, the
  first int that no float holds. With the threshold fixed, the score does not
  decrease when the count of events in the window grows, and it is exactly 1 once
  the count reaches \<open>max(1, threshold)\<close>. When \<^verbatim>\<open>count()\<close> raises, so does the
  detector.
\<close>

theorem file_rate_monotone_saturating:
  "(runtime_config w FILES_MODIFIED_THRESHOLD = runtime_config w' FILES_MODIFIED_THRESHOLD
      \<and> fst (file_mod_count e w) = Inr n \<and> fst (file_mod_count e' w') = Inr n'
      \<and> n \<le> n' \<and> int n' < FLOAT_LIMIT
      \<longrightarrow> (\<exists>s s'. fst (detect_file_rate_score e w) = Inr s
             \<and> fst (detect_file_rate_score e' w') = Inr s' \<and> s \<le> s'))
   \<and> (fst (file_mod_count e w) = Inr n \<and> int n < FLOAT_LIMIT
      \<and> py_max 1 (runtime_config w FILES_MODIFIED_THRESHOLD) = Some d \<and> d \<le> real n
      \<longrightarrow> fst (detect_file_rate_score e w) = Inr 1)
   \<and> (fst (file_mod_count e w) = Inr n \<and> int n < FLOAT_LIMIT
      \<longrightarrow> fst (detect_file_rate_score e w)
          = Inr (capped (real n) (py_max 1 (runtime_config w FILES_MODIFIED_THRESHOLD))))
   \<and> (fst (file_mod_count e w) = Inl x \<longrightarrow> fst (detect_file_rate_score e w) = Inl x)"
proof (intro conjI impI)
  assume a: "runtime_config w FILES_MODIFIED_THRESHOLD = runtime_config w' FILES_MODIFIED_THRESHOLD
      \<and> fst (file_mod_count e w) = Inr n \<and> fst (file_mod_count e' w') = Inr n'
      \<and> n \<le> n' \<and> int n' < FLOAT_LIMIT"
  let ?thr = "runtime_config w FILES_MODIFIED_THRESHOLD"
  have s: "fst (detect_file_rate_score e w) = Inr (capped (real n) (py_max 1 ?thr))"
    using a by (simp add: file_rate_score_eq ratio_score_small)
  have s': "fst (detect_file_rate_score e' w') = Inr (capped (real n') (py_max 1 ?thr))"
    using a by (simp add: file_rate_score_eq ratio_score_small)
  have "capped (real n) (py_max 1 ?thr) \<le> capped (real n') (py_max 1 ?thr)"
    using a by (intro capped_mono) simp_all
  with s s' show "\<exists>s s'. fst (detect_file_rate_score e w) = Inr s
             \<and> fst (detect_file_rate_score e' w') = Inr s' \<and> s \<le> s'" by blast
next
  assume a: "fst (file_mod_count e w) = Inr n \<and> int n < FLOAT_LIMIT
      \<and> py_max 1 (runtime_config w FILES_MODIFIED_THRESHOLD) = Some d \<and> d \<le> real n"
  then have "1 \<le> d" using py_max_pos[of 1 "runtime_config w FILES_MODIFIED_THRESHOLD" d] by simp
  with a have "1 \<le> real n / d" by (simp add: le_divide_eq)
  then have "capped (real n) (Some d) = 1" by (simp add: capped_def)
  with a show "fst (detect_file_rate_score e w) = Inr 1"
    by (simp add: file_rate_score_eq ratio_score_small)
next
  assume "fst (file_mod_count e w) = Inr n \<and> int n < FLOAT_LIMIT"
  then show "fst (detect_file_rate_score e w)
          = Inr (capped (real n) (py_max 1 (runtime_config w FILES_MODIFIED_THRESHOLD)))"
    by (simp add: file_rate_score_eq ratio_score_small)
next
  assume "fst (file_mod_count e w) = Inl x"
  then show "fst (detect_file_rate_score e w) = Inl x" by (simp add: file_rate_score_eq)
qed

text \<open>
  Claim C9 with the threshold itself in place of \<open>max(1, threshold)\<close> fails for a
  threshold below 1: after the threshold has been set to 0 through \<^verbatim>\<open>set_rates\<close>, a count of 0 is at the threshold and the score is 0.
\<close>

theorem file_rate_threshold_zero_counterexample:
  "runtime_config
      (snd (set_rates example_env (JObj [(''FILES_MODIFIED_THRESHOLD'', JInt 0)]) (start_world Map.empty)))
      FILES_MODIFIED_THRESHOLD = PyInt 0
   \<and> fst (file_mod_count example_env
      (snd (set_rates example_env (JObj [(''FILES_MODIFIED_THRESHOLD'', JInt 0)]) (start_world Map.empty))))
     = Inr 0
   \<and> fst (detect_file_rate_score example_env
      (snd (set_rates example_env (JObj [(''FILES_MODIFIED_THRESHOLD'', JInt 0)]) (start_world Map.empty))))
     = Inr 0"
proof -
  have w: "snd (set_rates example_env (JObj [(''FILES_MODIFIED_THRESHOLD'', JInt 0)]) (start_world Map.empty))
      = (start_world Map.empty)\<lparr>runtime_config := default_config(FILES_MODIFIED_THRESHOLD := PyInt 0)\<rparr>"
    by (simp add: set_rates_def key_of_def start_world_def respond_def)
  have c: "fst (file_mod_count example_env
      ((start_world Map.empty)\<lparr>runtime_config := default_config(FILES_MODIFIED_THRESHOLD := PyInt 0)\<rparr>))
      = Inr 0"
    by (simp add: file_mod_count_eq start_world_def example_clock cutoff_ok_def pruned_def
        DATETIME_MIN_def DATETIME_MAX_def)
  have "ratio_score 0 (PyInt 0) = Inr 0"
    using ratio_score_small[of 0 "PyInt 0"] FLOAT_LIMIT_pos by (simp add: capped_def)
  then show ?thesis unfolding w file_rate_score_eq c by (simp add: start_world_def)
qed

text \<open>
  No event against one event under the default threshold 5, and one event under the
  threshold 1.
\<close>

theorem file_rate_monotone_saturating_witness:
  "runtime_config (start_world Map.empty) FILES_MODIFIED_THRESHOLD
     = runtime_config one_created FILES_MODIFIED_THRESHOLD
   \<and> fst (file_mod_count example_env (start_world Map.empty)) = Inr 0
   \<and> fst (file_mod_count example_env one_created) = Inr 1
   \<and> (0::nat) \<le> 1 \<and> int 1 < FLOAT_LIMIT
   \<and> (\<exists>s s'. fst (detect_file_rate_score example_env (start_world Map.empty)) = Inr s
        \<and> fst (detect_file_rate_score example_env one_created) = Inr s' \<and> s \<le> s')
   \<and> py_max 1 (runtime_config (one_created\<lparr>runtime_config := default_config(FILES_MODIFIED_THRESHOLD := PyInt 1)\<rparr>)
        FILES_MODIFIED_THRESHOLD) = Some 1
   \<and> fst (file_mod_count example_env
        (one_created\<lparr>runtime_config := default_config(FILES_MODIFIED_THRESHOLD := PyInt 1)\<rparr>)) = Inr 1
   \<and> fst (detect_file_rate_score example_env
        (one_created\<lparr>runtime_config := default_config(FILES_MODIFIED_THRESHOLD := PyInt 1)\<rparr>)) = Inr 1"
proof -
  let ?w1 = "one_created\<lparr>runtime_config := default_config(FILES_MODIFIED_THRESHOLD := PyInt 1)\<rparr>"
  have lim: "int 1 < FLOAT_LIMIT" using FLOAT_LIMIT_pos by simp
  have a: "runtime_config (start_world Map.empty) FILES_MODIFIED_THRESHOLD
      = runtime_config one_created FILES_MODIFIED_THRESHOLD"
    "fst (file_mod_count example_env (start_world Map.empty)) = Inr 0"
    "fst (file_mod_count example_env one_created) = Inr 1"
    by (simp_all add: one_created_eval start_world_def file_mod_count_eq example_clock
        cutoff_ok_def pruned_def DATETIME_MIN_def DATETIME_MAX_def)
  have b: "py_max 1 (runtime_config ?w1 FILES_MODIFIED_THRESHOLD) = Some 1"
    "fst (file_mod_count example_env ?w1) = Inr 1"
    by (simp_all add: one_created_eval file_mod_count_eq example_clock
        cutoff_ok_def pruned_def DATETIME_MIN_def DATETIME_MAX_def)
  have le: "(0::nat) \<le> 1" "(1::real) \<le> real 1" by simp_all
  have m: "\<exists>s s'. fst (detect_file_rate_score example_env (start_world Map.empty)) = Inr s
        \<and> fst (detect_file_rate_score example_env one_created) = Inr s' \<and> s \<le> s'"
    using file_rate_monotone_saturating[where w="start_world Map.empty" and w'=one_created
      and e=example_env and e'=example_env and n=0 and n'=1] a lim le by blast
  have s: "fst (detect_file_rate_score example_env ?w1) = Inr 1"
    using file_rate_monotone_saturating[where w="?w1" and e=example_env and n=1 and d=1]
      b lim le by blast
  from a b lim le m s show ?thesis by blast
qed

section \<open>Quarantine\<close>

text \<open>
  Claim C2. Whatever \<^verbatim>\<open>move_to_quarantine\<close> does on a path: when it raises (the
  directory cannot be made, the copy raises, or the removal raises), the source file
  is as it was; when it returns, the source existed, the destination is another path
  and holds the source's content, and only then is the source removed.
\<close>

theorem quarantine_removes_only_after_copy:
  "case move_to_quarantine e p w of
     (Inl err, w') \<Rightarrow> files w' p = files w p
   | (Inr dest, w') \<Rightarrow>
       files w p \<noteq> None \<and> dest \<noteq> p \<and> files w' dest = files w p \<and> files w' p = None"
proof -
  obtain b1 w1 where m: "mkdir e (QUARANTINE_DIR e) w = (b1, w1)" by fastforce
  obtain secs w2 where t: "int_time_time e w1 = (secs, w2)" by fastforce
  obtain b3 w3 where c: "copy2 e p (quarantine_dest e p secs) w2 = (b3, w3)" by fastforce
  obtain b4 w4 where u: "unlink e p w3 = (b4, w4)" by fastforce
  have f2: "files w2 = files w" using mkdir_files[OF m] int_time_time_files[OF t] by simp
  show ?thesis
  proof (cases b1)
    case False
    with m show ?thesis using mkdir_files[OF m] by (simp add: move_to_quarantine_def)
  next
    case True
    note b1 = this
    show ?thesis
    proof (cases b3)
      case False
      with b1 m t c f2 copy2_False[of e p _ w2 w3] show ?thesis
        by (simp add: move_to_quarantine_def)
    next
      case True
      note b3 = this
      from copy2_True[of e p _ w2 w3] c b3 f2
      have cp: "p \<noteq> quarantine_dest e p secs" "files w p \<noteq> None"
        "files w3 = (files w)(quarantine_dest e p secs := files w p)"
        by simp_all
      show ?thesis
      proof (cases b4)
        case False
        with b1 b3 m t c u cp unlink_False[of e p w3 w4] show ?thesis
          by (simp add: move_to_quarantine_def)
      next
        case True
        with b1 b3 m t c u cp unlink_True[of e p w3 w4] show ?thesis
          by (auto simp add: move_to_quarantine_def)
      qed
    qed
  qed
qed


lemma example_quarantine_dest:
  "quarantine_dest (example_env\<lparr>io_outcome := f\<rparr>) ''/opt/agent/demo_sandbox/a.txt'' 0 = ''/opt/agent/demo_quarantine/a.txt.0''"
  by (simp add: quarantine_dest_def QUARANTINE_DIR_def joinpath_def path_name_def example_env_def str_int_0)

text \<open>
  A run in which every operation succeeds, and a run whose copy fails after writing
  one byte.
\<close>

theorem quarantine_witness:
  "fst (move_to_quarantine (example_env\<lparr>io_outcome := (\<lambda>n. Succeeds)\<rparr>) ''/opt/agent/demo_sandbox/a.txt''
      (start_world [''/opt/agent/demo_sandbox/a.txt'' \<mapsto> [1, 2, 3]]))
    = Inr ''/opt/agent/demo_quarantine/a.txt.0''
   \<and> files (snd (move_to_quarantine (example_env\<lparr>io_outcome := (\<lambda>n. Succeeds)\<rparr>) ''/opt/agent/demo_sandbox/a.txt''
      (start_world [''/opt/agent/demo_sandbox/a.txt'' \<mapsto> [1, 2, 3]])))
      ''/opt/agent/demo_quarantine/a.txt.0'' = Some [1, 2, 3]
   \<and> files (snd (move_to_quarantine (example_env\<lparr>io_outcome := (\<lambda>n. Succeeds)\<rparr>) ''/opt/agent/demo_sandbox/a.txt''
      (start_world [''/opt/agent/demo_sandbox/a.txt'' \<mapsto> [1, 2, 3]])))
      ''/opt/agent/demo_sandbox/a.txt'' = None
   \<and> fst (move_to_quarantine (example_env\<lparr>io_outcome := (\<lambda>n. if n = 1 then Fails (Some [1]) else Succeeds)\<rparr>)
      ''/opt/agent/demo_sandbox/a.txt''
      (start_world [''/opt/agent/demo_sandbox/a.txt'' \<mapsto> [1, 2, 3]]))
    = Inl CopyError
   \<and> files (snd (move_to_quarantine (example_env\<lparr>io_outcome := (\<lambda>n. if n = 1 then Fails (Some [1]) else Succeeds)\<rparr>)
      ''/opt/agent/demo_sandbox/a.txt''
      (start_world [''/opt/agent/demo_sandbox/a.txt'' \<mapsto> [1, 2, 3]])))
      ''/opt/agent/demo_sandbox/a.txt'' = Some [1, 2, 3]"
proof -
  let ?p = "''/opt/agent/demo_sandbox/a.txt''"
  let ?w = "start_world [?p \<mapsto> [1, 2, 3]]"
  let ?ok = "example_env\<lparr>io_outcome := (\<lambda>n. Succeeds)\<rparr>"
  let ?bad = "example_env\<lparr>io_outcome := (\<lambda>n. if n = 1 then Fails (Some [1]) else Succeeds)\<rparr>"
  have ok: "fst (move_to_quarantine ?ok ?p ?w) = Inr ''/opt/agent/demo_quarantine/a.txt.0''"
    by (simp add: move_to_quarantine_def mkdir_def io_next_def int_time_time_def copy2_def
        unlink_def start_world_def example_quarantine_dest example_clock Let_def)
  have bad: "fst (move_to_quarantine ?bad ?p ?w) = Inl CopyError"
    by (simp add: move_to_quarantine_def mkdir_def io_next_def int_time_time_def copy2_def
        unlink_def start_world_def example_quarantine_dest example_clock Let_def)
  have w: "files ?w ?p = Some [1, 2, 3]" by (simp add: start_world_def)
  from quarantine_removes_only_after_copy[where e="?ok" and p="?p" and w="?w"] ok w
  have "files (snd (move_to_quarantine ?ok ?p ?w)) ''/opt/agent/demo_quarantine/a.txt.0'' = Some [1, 2, 3]
      \<and> files (snd (move_to_quarantine ?ok ?p ?w)) ?p = None"
    by (cases "move_to_quarantine ?ok ?p ?w") simp
  moreover from quarantine_removes_only_after_copy[where e="?bad" and p="?p" and w="?w"] bad w
  have "files (snd (move_to_quarantine ?bad ?p ?w)) ?p = Some [1, 2, 3]"
    by (cases "move_to_quarantine ?bad ?p ?w") simp
  ultimately show ?thesis using ok bad by simp
qed

section \<open>The entropy detector\<close>

lemma freq_bump_keys: "fst ` set (freq_bump fr b) = insert b (fst ` set fr)"
  by (induction fr b rule: freq_bump.induct) auto

lemma freq_bump_distinct: "distinct (map fst fr) \<Longrightarrow> distinct (map fst (freq_bump fr b))"
  by (induction fr b rule: freq_bump.induct) (auto simp: freq_bump_keys)

lemma freq_bump_map_of:
  "map_of (freq_bump fr b) = (map_of fr)(b \<mapsto> (case map_of fr b of None \<Rightarrow> 1 | Some v \<Rightarrow> v + 1))"
  by (induction fr b rule: freq_bump.induct) (auto simp: fun_eq_iff)

lemma foldl_freq_bump_distinct:
  "distinct (map fst fr) \<Longrightarrow> distinct (map fst (foldl freq_bump fr data))"
  by (induction data arbitrary: fr) (auto simp: freq_bump_distinct)

lemma foldl_freq_bump_map_of:
  "map_of (foldl freq_bump fr data) k =
    (case map_of fr k of
       None \<Rightarrow> (if k \<in> set data then Some (count_list data k) else None)
     | Some v \<Rightarrow> Some (v + count_list data k))"
proof (induction data arbitrary: fr)
  case Nil
  then show ?case by (simp split: option.splits)
next
  case (Cons b data)
  show ?case
    by (simp add: Cons.IH freq_bump_map_of split: option.splits)
qed

lemma freq_entries:
  "set (foldl freq_bump [] data) = (\<lambda>b. (b, count_list data b)) ` set data"
proof -
  let ?fr = "foldl freq_bump [] data"
  have d: "distinct (map fst ?fr)" by (rule foldl_freq_bump_distinct) simp
  have m: "map_of ?fr k = (if k \<in> set data then Some (count_list data k) else None)" for k
    by (simp add: foldl_freq_bump_map_of)
  show ?thesis
  proof (rule set_eqI)
    fix x :: "byte \<times> nat"
    obtain k v where x: "x = (k, v)" by (cases x)
    have "(k, v) \<in> set ?fr \<longleftrightarrow> map_of ?fr k = Some v"
      using d by simp
    also have "\<dots> \<longleftrightarrow> k \<in> set data \<and> v = count_list data k"
      by (auto simp: m)
    finally show "x \<in> set ?fr \<longleftrightarrow> x \<in> (\<lambda>b. (b, count_list data b)) ` set data"
      using x by auto
  qed
qed

lemma foldl_minus: "foldl (\<lambda>ent v. ent - f v) a vs = a - sum_list (map f vs)" for a :: real
  by (induction vs arbitrary: a) auto

lemma entropy_shannon: "entropy data = shannon data"
proof (cases "data = []")
  case True
  then show ?thesis by (simp add: entropy_def shannon_def)
next
  case False
  let ?fr = "foldl freq_bump [] data"
  let ?f = "\<lambda>v. (real v / real (length data)) * log 2 (real v / real (length data))"
  have d: "distinct ?fr"
    using foldl_freq_bump_distinct[of "[]" data] by (simp add: distinct_map)
  have "sum_list (map ?f (map snd ?fr)) = sum_list (map (\<lambda>p. ?f (snd p)) ?fr)"
    by (simp add: comp_def)
  also have "\<dots> = (\<Sum>p\<in>set ?fr. ?f (snd p))"
    using d by (rule sum_list_distinct_conv_sum_set)
  also have "\<dots> = (\<Sum>p\<in>(\<lambda>b. (b, count_list data b)) ` set data. ?f (snd p))"
    by (simp add: freq_entries)
  also have "\<dots> = (\<Sum>b\<in>set data. ?f (count_list data b))"
    by (subst sum.reindex) (auto simp: inj_on_def)
  finally show ?thesis using False
    by (simp add: entropy_def shannon_def foldl_minus)
qed

lemma count_list_le_length: "count_list xs x \<le> length xs"
  by (induction xs) auto

lemma shannon_nonneg: "0 \<le> shannon data"
proof -
  have "(real (count_list data b) / real (length data))
        * log 2 (real (count_list data b) / real (length data)) \<le> 0"
    if "b \<in> set data" for b
  proof -
    have pos: "0 < count_list data b" using that count_list_0_iff[of data b] by auto
    have len: "0 < length data" using that by (cases data) auto
    have le: "count_list data b \<le> length data" by (rule count_list_le_length)
    let ?p = "real (count_list data b) / real (length data)"
    have p0: "0 < ?p" using pos len by simp
    have p1: "?p \<le> 1" using le len by simp
    have "log 2 ?p \<le> 0" using p0 p1 log_le_zero_cancel_iff[of 2 ?p] by linarith
    moreover have "0 \<le> ?p" using p0 by linarith
    ultimately show ?thesis by (rule mult_nonneg_nonpos[rotated])
  qed
  then have "(\<Sum>b\<in>set data. (real (count_list data b) / real (length data))
                        * log 2 (real (count_list data b) / real (length data))) \<le> 0"
    by (rule sum_nonpos)
  then show ?thesis by (simp add: shannon_def)
qed

lemma entropy_ratio_eq:
  "entropy_ratio x thr =
    (if (case thr of PyInt i \<Rightarrow> FLOAT_LIMIT \<le> i | PyFloat f \<Rightarrow> False) then None
     else Some (capped x (py_max 0.001 thr)))"
  by (simp add: entropy_ratio_def split: num.splits)

lemma entropy_scores_opened:
  "fst (entropy_scores e thr ps w)
   = (if (case thr of PyInt i \<Rightarrow> FLOAT_LIMIT \<le> i | PyFloat f \<Rightarrow> False) then []
      else map (\<lambda>c. capped (shannon c) (py_max 0.001 thr)) (opened e (ios w) (files w) ps))"
proof (induction ps arbitrary: w)
  case Nil
  then show ?case by simp
next
  case (Cons p ps)
  show ?case
  proof (cases "io_outcome e (ios w)")
    case Succeeds
    show ?thesis
    proof (cases "files w p")
      case None
      with Succeeds show ?thesis
        using Cons.IH[of "w\<lparr>ios := Suc (ios w)\<rparr>"]
        by (simp add: read_file_def io_next_def)
    next
      case (Some d)
      with Succeeds show ?thesis
        using Cons.IH[of "w\<lparr>ios := Suc (ios w)\<rparr>"]
        by (cases "entropy_scores e thr ps (w\<lparr>ios := Suc (ios w)\<rparr>)")
           (simp add: read_file_def io_next_def entropy_shannon entropy_ratio_eq)
    qed
  next
    case (Fails junk)
    then show ?thesis
      using Cons.IH[of "w\<lparr>ios := Suc (ios w)\<rparr>"]
      by (simp add: read_file_def io_next_def)
  qed
qed

lemma detect_entropy_score_eq:
  "fst (detect_entropy_score e w)
     = (if (case runtime_config w ENTROPY_THRESHOLD of PyInt i \<Rightarrow> FLOAT_LIMIT \<le> i
            | PyFloat f \<Rightarrow> False) then 0
        else mean (map (\<lambda>c. capped (shannon c) (py_max 0.001 (runtime_config w ENTROPY_THRESHOLD)))
                     (opened e (ios w) (files w) (take 5 (recent_modified_files w)))))"
proof -
  have "fst (detect_entropy_score e w)
      = mean (fst (entropy_scores e (runtime_config w ENTROPY_THRESHOLD)
                    (take 5 (recent_modified_files w)) w))"
    by (simp add: detect_entropy_score_def mean_def split: prod.splits)
  then show ?thesis by (simp add: entropy_scores_opened mean_def)
qed

text \<open>
  Claim C8, as it holds of the code. The entropy detector takes the first five entries of
  \<^verbatim>\<open>recent_modified_files\<close> (the oldest of the log), reads up to the first 4096 bytes of
  each, skips a file that cannot be read, scores a chunk by its Shannon entropy over
  \<open>max(0.001, entropy_threshold)\<close>, capped at 1, and returns the mean of the scores, 0
  when there is none. For a finite float threshold \<open>r\<close> the score of a chunk is
  \<open>min 1 (H / max 0.001 r)\<close>. Python's \<^verbatim>\<open>max\<close> gives 0.001 for \<^verbatim>\<open>nan\<close> and
  \<^verbatim>\<open>-inf\<close>; for \<^verbatim>\<open>inf\<close> every chunk scores 0; and for an int threshold beyond the
  float range every division raises inside the \<^verbatim>\<open>try\<close>, so that no sample succeeds.
\<close>

theorem detect_entropy_score_spec:
  "fst (detect_entropy_score e w)
     = (if (case runtime_config w ENTROPY_THRESHOLD of PyInt i \<Rightarrow> FLOAT_LIMIT \<le> i
            | PyFloat f \<Rightarrow> False) then 0
        else mean (map (\<lambda>c. capped (shannon c) (py_max 0.001 (runtime_config w ENTROPY_THRESHOLD)))
                     (opened e (ios w) (files w) (take 5 (recent_modified_files w)))))
   \<and> (runtime_config w ENTROPY_THRESHOLD = PyFloat (Finite r)
      \<longrightarrow> fst (detect_entropy_score e w)
          = mean (map (\<lambda>c. min 1 (shannon c / max 0.001 r))
                    (opened e (ios w) (files w) (take 5 (recent_modified_files w)))))"
proof -
  note a = detect_entropy_score_eq[of e w]
  have "fst (detect_entropy_score e w)
          = mean (map (\<lambda>c. min 1 (shannon c / max 0.001 r))
                    (opened e (ios w) (files w) (take 5 (recent_modified_files w))))"
    if "runtime_config w ENTROPY_THRESHOLD = PyFloat (Finite r)"
    unfolding a using that by (simp add: capped_def)
  with a show ?thesis by blast
qed

lemma shannon_01: "shannon [0, 1] = 1"
  by (simp add: shannon_def log_divide)

lemma example_io: "io_outcome example_env n = Succeeds"
  by (simp add: example_env_def)

text \<open>
  Claim C8 with the five most recent entries and the threshold itself fails. Six
  entries are in the log and only the most recent one can be read: under the default
  threshold 2.0 the detector looks at the five oldest and returns 0, where the five
  most recent give 1/2. And under the threshold -1.0 a chunk of entropy 1 scores 1,
  where the entropy over the threshold is -1.
\<close>

theorem entropy_most_recent_counterexample:
  "runtime_config six_logged ENTROPY_THRESHOLD = PyFloat (Finite 2)
   \<and> fst (detect_entropy_score example_env six_logged) = 0
   \<and> spec_entropy_score example_env six_logged 2 = 1 / 2
   \<and> last (recent_modified_files six_logged) = ''/opt/agent/demo_sandbox/f''
   \<and> files six_logged ''/opt/agent/demo_sandbox/f'' = Some [0, 1]
   \<and> fst (detect_entropy_score example_env
        (one_logged\<lparr>runtime_config := default_config(ENTROPY_THRESHOLD := PyFloat (Finite (- 1)))\<rparr>)) = 1
   \<and> spec_entropy_score example_env
        (one_logged\<lparr>runtime_config := default_config(ENTROPY_THRESHOLD := PyFloat (Finite (- 1)))\<rparr>)
        (- 1) = - 1"
  by (simp add: six_logged_def one_logged_def start_world_def detect_entropy_score_def read_file_def
      io_next_def example_io spec_entropy_score_def mean_def shannon_01 entropy_shannon
      entropy_ratio_eq capped_def)

text \<open>One readable entry holding the bytes 0 and 1, under the threshold 2.0.\<close>

theorem detect_entropy_score_witness:
  "runtime_config one_logged ENTROPY_THRESHOLD = PyFloat (Finite 2)
   \<and> fst (detect_entropy_score example_env one_logged) = 1 / 2"
proof -
  have a: "runtime_config one_logged ENTROPY_THRESHOLD = PyFloat (Finite 2)"
    by (simp add: one_logged_def start_world_def)
  from detect_entropy_score_spec[of example_env one_logged 2] a show ?thesis
    by (simp add: one_logged_def start_world_def example_io mean_def shannon_01)
qed

section \<open>Scores and confidence are in the unit interval\<close>

lemma ratio_score_unit:
  "0 \<le> n \<Longrightarrow> case ratio_score n thr of Inl x \<Rightarrow> x = OverflowError | Inr s \<Rightarrow> 0 \<le> s \<and> s \<le> 1"
  using capped_unit[of 1 "real_of_int n" thr] by (simp add: ratio_score_def)

lemma ratio_score_le_1:
  "case ratio_score n thr of Inl x \<Rightarrow> x = OverflowError | Inr s \<Rightarrow> s \<le> 1"
  by (simp add: ratio_score_def capped_le_1)

lemma file_rate_unit:
  "case fst (detect_file_rate_score e w) of
     Inl x \<Rightarrow> x = OverflowError | Inr s \<Rightarrow> 0 \<le> s \<and> s \<le> 1"
  using ratio_score_unit[of "int n" "runtime_config w FILES_MODIFIED_THRESHOLD" for n]
  by (simp add: file_rate_score_eq file_mod_count_eq)

lemma rename_score_eq:
  "fst (detect_rename_score e w)
   = (case fst (rename_count e w) of
        Inl x \<Rightarrow> Inl x
      | Inr n \<Rightarrow> ratio_score (int n) (runtime_config w RENAMES_THRESHOLD))"
  by (simp add: detect_rename_score_def rename_count_eq)

lemma rename_unit:
  "case fst (detect_rename_score e w) of
     Inl x \<Rightarrow> x = OverflowError | Inr s \<Rightarrow> 0 \<le> s \<and> s \<le> 1"
  using ratio_score_unit[of "int n" "runtime_config w RENAMES_THRESHOLD" for n]
  by (simp add: rename_score_eq rename_count_eq)

lemma bytes_written_unit:
  "case detect_bytes_written_score w of
     Inl x \<Rightarrow> x = OverflowError | Inr s \<Rightarrow> 0 \<le> s \<and> s \<le> 1"
  unfolding detect_bytes_written_score_def by (rule ratio_score_unit) simp

lemma ransom_note_loop_unit:
  "case fst (ransom_note_loop e ps w) of
     Inl x \<Rightarrow> x = ExistsError | Inr s \<Rightarrow> 0 \<le> s \<and> s \<le> 1"
proof (induction ps arbitrary: w)
  case Nil
  then show ?case by simp
next
  case (Cons p ps)
  show ?case
    using Cons.IH[of "w\<lparr>ios := Suc (ios w)\<rparr>"]
    by (simp add: path_exists_def io_next_def split: outcome.splits bool.splits)
qed

lemma ransom_note_unit:
  "case fst (detect_ransom_note_score e w) of
     Inl x \<Rightarrow> x = ExistsError | Inr s \<Rightarrow> 0 \<le> s \<and> s \<le> 1"
  by (simp add: detect_ransom_note_score_def ransom_note_loop_unit)

lemma mean_unit:
  assumes "\<And>x. x \<in> set xs \<Longrightarrow> 0 \<le> x \<and> x \<le> 1"
  shows "0 \<le> mean xs \<and> mean xs \<le> 1"
proof (cases "xs = []")
  case True
  then show ?thesis by (simp add: mean_def)
next
  case False
  have lo: "0 \<le> sum_list xs" using assms by (intro sum_list_nonneg) simp
  have "sum_list (map (\<lambda>x. x) xs) \<le> sum_list (map (\<lambda>x. 1) xs)"
    using assms by (intro sum_list_mono) simp
  then have hi: "sum_list xs \<le> real (length xs)" by (simp add: sum_list_triv)
  have "0 < real (length xs)" using False by simp
  with lo hi False show ?thesis by (simp add: mean_def)
qed

lemma entropy_unit:
  "0 \<le> fst (detect_entropy_score e w) \<and> fst (detect_entropy_score e w) \<le> 1"
proof -
  have "0 \<le> capped (shannon c) (py_max 0.001 thr) \<and> capped (shannon c) (py_max 0.001 thr) \<le> 1"
    for c thr
    using shannon_nonneg[of c] by (intro capped_unit) simp_all
  then have "0 \<le> mean (map (\<lambda>c. capped (shannon c) (py_max 0.001 thr)) cs)
      \<and> mean (map (\<lambda>c. capped (shannon c) (py_max 0.001 thr)) cs) \<le> 1" for cs thr
    by (intro mean_unit) auto
  then show ?thesis using detect_entropy_score_eq[of e w] by simp
qed

lemma proc_scores_unit:
  "proc_scores thr pw = Inr scores \<Longrightarrow> list_all (\<lambda>x. 0 \<le> x \<and> x \<le> 1) scores"
proof (induction thr pw arbitrary: scores rule: proc_scores.induct)
  case (1 thr)
  then show ?case by simp
next
  case (2 thr pid dq rest)
  show ?case
  proof (cases "dq \<noteq> [] \<and> 2 \<le> length dq")
    case False
    then have "proc_scores thr ((pid, dq) # rest) = proc_scores thr rest" by auto
    with "2.prems" "2.IH"(1,3) False show ?thesis by (cases "dq = []") auto
  next
    case True
    with "2.prems"(1) obtain s ss where
      s: "ratio_score (snd (last dq) - snd (hd dq)) (PyFloat thr) = Inr s"
      and ss: "proc_scores thr rest = Inr ss"
      and sc: "scores = (if s > 0.1 then s # ss else ss)"
      by (auto split: sum.splits)
    have s1: "s \<le> 1"
      using ratio_score_le_1[of "snd (last dq) - snd (hd dq)" "PyFloat thr"] s by simp
    have rest: "list_all (\<lambda>x. 0 \<le> x \<and> x \<le> 1) ss"
      using "2.IH"(2)[OF _ _ s ss] True by simp
    show ?thesis unfolding sc using s1 rest by simp
  qed
qed

lemma foldl_max_unit:
  "0 \<le> s \<Longrightarrow> s \<le> 1 \<Longrightarrow> (\<And>x. x \<in> set xs \<Longrightarrow> 0 \<le> x \<and> x \<le> 1) \<Longrightarrow>
   0 \<le> foldl max s xs \<and> foldl max s xs \<le> (1::real)"
  by (induction xs arbitrary: s) auto

lemma tenth_raises: "tenth thr = Inl x \<Longrightarrow> x = OverflowError"
  by (cases thr rule: tenth.cases) (auto simp: int_to_float_def split: if_splits)

lemma proc_scores_raises: "proc_scores thr pw = Inl x \<Longrightarrow> x = OverflowError"
proof (induction thr pw rule: proc_scores.induct)
  case (1 thr)
  then show ?case by simp
next
  case (2 thr pid dq rest)
  show ?case
  proof (cases "dq \<noteq> [] \<and> 2 \<le> length dq")
    case False
    then have "proc_scores thr ((pid, dq) # rest) = proc_scores thr rest" by auto
    with "2.prems" "2.IH"(1,3) False show ?thesis by (cases "dq = []") auto
  next
    case True
    show ?thesis
    proof (cases "ratio_score (snd (last dq) - snd (hd dq)) (PyFloat thr)")
      case (Inl y)
      with "2.prems" True have "x = y" by simp
      with Inl ratio_score_le_1[of "snd (last dq) - snd (hd dq)" "PyFloat thr"]
      show ?thesis by simp
    next
      case (Inr s)
      with "2.prems" True have "proc_scores thr rest = Inl x" by (auto split: sum.splits)
      with "2.IH"(2)[OF _ _ Inr] True show ?thesis by simp
    qed
  qed
qed

lemma proc_behavior_unit:
  "case detect_proc_behavior_score w of
     Inl x \<Rightarrow> x = OverflowError | Inr s \<Rightarrow> 0 \<le> s \<and> s \<le> 1"
proof (cases "tenth (runtime_config w BYTES_WRITTEN_THRESHOLD)")
  case (Inl x)
  with tenth_raises[OF Inl] show ?thesis by (simp add: detect_proc_behavior_score_def)
next
  case (Inr thr)
  show ?thesis
  proof (cases "proc_scores thr (proc_writes w)")
    case (Inl x)
    with proc_scores_raises[OF Inl] Inr show ?thesis by (simp add: detect_proc_behavior_score_def)
  next
    case scores: (Inr scores)
    show ?thesis
    proof (cases scores)
      case Nil
      with Inr scores show ?thesis by (simp add: detect_proc_behavior_score_def)
    next
      case (Cons s ss)
      then have "\<And>x. x \<in> set (s # ss) \<Longrightarrow> 0 \<le> x \<and> x \<le> 1"
        using proc_scores_unit[OF scores] by (auto simp: list_all_iff)
      then have "0 \<le> foldl max s ss \<and> foldl max s ss \<le> 1"
        by (intro foldl_max_unit) auto
      with Inr scores Cons show ?thesis by (simp add: detect_proc_behavior_score_def)
    qed
  qed
qed

lemma ml_unit:
  "case fst (detect_ml_score e w) of
     Inl x \<Rightarrow> x = OverflowError | Inr s \<Rightarrow> 0 \<le> s \<and> s \<le> 1"
  by (auto simp: detect_ml_score_def Let_def file_mod_count_eq rename_count_eq
      split: option.splits)

lemma weights_get_values:
  "weights_get ''file_rate'' = 0.25" "weights_get ''bytes_written'' = 0.20"
  "weights_get ''rename_spike'' = 0.15" "weights_get ''ransom_note'' = 0.20"
  "weights_get ''entropy'' = 0.2" "weights_get ''proc_behavior'' = 0.25"
  "weights_get ''ml_score'' = 0.15"
  by (simp_all add: weights_get_def WEIGHTS_def)

lemma weighted_bounds:
  fixes s1 :: real
  assumes "0 \<le> s1 \<and> s1 \<le> 1" "0 \<le> s2 \<and> s2 \<le> 1" "0 \<le> s3 \<and> s3 \<le> 1" "0 \<le> s4 \<and> s4 \<le> 1"
    "0 \<le> s5 \<and> s5 \<le> 1" "0 \<le> s6 \<and> s6 \<le> 1" "0 \<le> s7 \<and> s7 \<le> 1"
  shows "0 \<le> (s1 / 4 + s2 / 5 + 3 * s3 / 20 + s4 / 5 + s5 / 5 + s6 / 4 + 3 * s7 / 20) / (7 / 5)"
    and "(s1 / 4 + s2 / 5 + 3 * s3 / 20 + s4 / 5 + s5 / 5 + s6 / 4 + 3 * s7 / 20) / (7 / 5) \<le> 1"
proof -
  have "0 \<le> s1 / 4 + s2 / 5 + 3 * s3 / 20 + s4 / 5 + s5 / 5 + s6 / 4 + 3 * s7 / 20"
    using assms by linarith
  then show "0 \<le> (s1 / 4 + s2 / 5 + 3 * s3 / 20 + s4 / 5 + s5 / 5 + s6 / 4 + 3 * s7 / 20) / (7 / 5)"
    by simp
  have "s1 / 4 + s2 / 5 + 3 * s3 / 20 + s4 / 5 + s5 / 5 + s6 / 4 + 3 * s7 / 20 \<le> 7 / 5"
    using assms by linarith
  then show "(s1 / 4 + s2 / 5 + 3 * s3 / 20 + s4 / 5 + s5 / 5 + s6 / 4 + 3 * s7 / 20) / (7 / 5) \<le> 1"
    by simp
qed

lemma fuse_value:
  "fuse [(''file_rate'', s1), (''bytes_written'', s2), (''rename_spike'', s3),
                 (''ransom_note'', s4), (''entropy'', s5), (''proc_behavior'', s6),
                 (''ml_score'', s7)]
      = (s1 / 4 + s2 / 5 + 3 * s3 / 20 + s4 / 5 + s5 / 5 + s6 / 4 + 3 * s7 / 20) / (7 / 5)"
proof -
  have ws: "sum_list (map snd WEIGHTS) = 7 / 5" by (simp add: WEIGHTS_def)
  show ?thesis by (simp add: fuse_def ws weights_get_values)
qed

lemma fuse_unit:
  assumes "0 \<le> s1 \<and> s1 \<le> 1" "0 \<le> s2 \<and> s2 \<le> 1" "0 \<le> s3 \<and> s3 \<le> 1" "0 \<le> s4 \<and> s4 \<le> 1"
    "0 \<le> s5 \<and> s5 \<le> 1" "0 \<le> s6 \<and> s6 \<le> 1" "0 \<le> s7 \<and> s7 \<le> 1"
  shows "0 \<le> fuse [(''file_rate'', s1), (''bytes_written'', s2), (''rename_spike'', s3),
                     (''ransom_note'', s4), (''entropy'', s5), (''proc_behavior'', s6),
                     (''ml_score'', s7)]
       \<and> fuse [(''file_rate'', s1), (''bytes_written'', s2), (''rename_spike'', s3),
                (''ransom_note'', s4), (''entropy'', s5), (''proc_behavior'', s6),
                (''ml_score'', s7)] \<le> 1"
  unfolding fuse_value using weighted_bounds[OF assms] by (rule conjI)

text \<open>
  The outcomes of \<^verbatim>\<open>compute_confidence\<close>: the exception of the first detector that
  raises, or the confidence and the breakdown of the seven scores.
\<close>

lemma compute_confidence_cases:
  "(\<exists>x. fst (compute_confidence e w) = Inl x \<and> (x = OverflowError \<or> x = ExistsError))
   \<or> (\<exists>s1 s2 s3 s4 s5 s6 s7.
        fst (compute_confidence e w)
          = Inr (fuse [(''file_rate'', s1), (''bytes_written'', s2), (''rename_spike'', s3),
                       (''ransom_note'', s4), (''entropy'', s5), (''proc_behavior'', s6),
                       (''ml_score'', s7)],
                 [(''file_rate'', s1), (''bytes_written'', s2), (''rename_spike'', s3),
                  (''ransom_note'', s4), (''entropy'', s5), (''proc_behavior'', s6),
                  (''ml_score'', s7)])
        \<and> (0 \<le> s1 \<and> s1 \<le> 1) \<and> (0 \<le> s2 \<and> s2 \<le> 1) \<and> (0 \<le> s3 \<and> s3 \<le> 1)
        \<and> (0 \<le> s4 \<and> s4 \<le> 1) \<and> (0 \<le> s5 \<and> s5 \<le> 1) \<and> (0 \<le> s6 \<and> s6 \<le> 1)
        \<and> (0 \<le> s7 \<and> s7 \<le> 1))"
proof -
  obtain r1 w1 where d1: "detect_file_rate_score e w = (r1, w1)" by fastforce
  obtain r3 w2 where d3: "detect_rename_score e w1 = (r3, w2)" by fastforce
  obtain r4 w3 where d4: "detect_ransom_note_score e w2 = (r4, w3)" by fastforce
  obtain s5 w4 where d5: "detect_entropy_score e w3 = (s5, w4)" by fastforce
  obtain r7 w5 where d7: "detect_ml_score e w4 = (r7, w5)" by fastforce
  note u1 = file_rate_unit[of e w, unfolded d1 fst_conv]
    and u2 = bytes_written_unit[of w1]
    and u3 = rename_unit[of e w1, unfolded d3 fst_conv]
    and u4 = ransom_note_unit[of e w2, unfolded d4 fst_conv]
    and u5 = entropy_unit[of e w3, unfolded d5 fst_conv]
    and u6 = proc_behavior_unit[of w4]
    and u7 = ml_unit[of e w4, unfolded d7 fst_conv]
  show ?thesis
  proof (cases r1)
    case (Inl x)
    then have "fst (compute_confidence e w) = Inl x" by (simp add: compute_confidence_def d1)
    with u1 Inl show ?thesis by simp
  next
    case s1: (Inr s1)
    show ?thesis
    proof (cases "detect_bytes_written_score w1")
      case (Inl x)
      then have "fst (compute_confidence e w) = Inl x"
        by (simp add: compute_confidence_def d1 s1)
      with u2 Inl show ?thesis by simp
    next
      case s2: (Inr s2)
      show ?thesis
      proof (cases r3)
        case (Inl x)
        then have "fst (compute_confidence e w) = Inl x"
          by (simp add: compute_confidence_def d1 s1 s2 d3)
        with u3 Inl show ?thesis by simp
      next
        case s3: (Inr s3)
        show ?thesis
        proof (cases r4)
          case (Inl x)
          then have "fst (compute_confidence e w) = Inl x"
            by (simp add: compute_confidence_def d1 s1 s2 d3 s3 d4)
          with u4 Inl show ?thesis by simp
        next
          case s4: (Inr s4)
          show ?thesis
          proof (cases "detect_proc_behavior_score w4")
            case (Inl x)
            then have "fst (compute_confidence e w) = Inl x"
              by (simp add: compute_confidence_def d1 s1 s2 d3 s3 d4 s4 d5)
            with u6 Inl show ?thesis by simp
          next
            case s6: (Inr s6)
            show ?thesis
            proof (cases r7)
              case (Inl x)
              then have "fst (compute_confidence e w) = Inl x"
                by (simp add: compute_confidence_def d1 s1 s2 d3 s3 d4 s4 d5 s6 d7)
              with u7 Inl show ?thesis by simp
            next
              case s7: (Inr s7)
              have cc: "fst (compute_confidence e w)
                  = Inr (fuse [(''file_rate'', s1), (''bytes_written'', s2), (''rename_spike'', s3),
                       (''ransom_note'', s4), (''entropy'', s5), (''proc_behavior'', s6),
                       (''ml_score'', s7)],
                 [(''file_rate'', s1), (''bytes_written'', s2), (''rename_spike'', s3),
                  (''ransom_note'', s4), (''entropy'', s5), (''proc_behavior'', s6),
                  (''ml_score'', s7)])"
                by (simp add: compute_confidence_def d1 s1 s2 d3 s3 d4 s4 d5 s6 d7 s7 Let_def)
              have b: "(0 \<le> s1 \<and> s1 \<le> 1)" "(0 \<le> s2 \<and> s2 \<le> 1)" "(0 \<le> s3 \<and> s3 \<le> 1)"
                "(0 \<le> s4 \<and> s4 \<le> 1)" "(0 \<le> s5 \<and> s5 \<le> 1)" "(0 \<le> s6 \<and> s6 \<le> 1)"
                "(0 \<le> s7 \<and> s7 \<le> 1)"
                using u1 u2 u3 u4 u5 u6 u7 s1 s2 s3 s4 s6 s7 by simp_all
              from cc b show ?thesis by blast
            qed
          qed
        qed
      qed
    qed
  qed
qed

lemma compute_confidence_unit:
  "case fst (compute_confidence e w) of
     Inl x \<Rightarrow> x = OverflowError \<or> x = ExistsError
   | Inr cd \<Rightarrow>
       map fst (snd cd)
         = [''file_rate'', ''bytes_written'', ''rename_spike'', ''ransom_note'', ''entropy'',
            ''proc_behavior'', ''ml_score'']
       \<and> list_all (\<lambda>d. 0 \<le> snd d \<and> snd d \<le> 1) (snd cd)
       \<and> fst cd = fuse (snd cd)
       \<and> 0 \<le> fst cd \<and> fst cd \<le> 1"
proof -
  show ?thesis
  proof (rule disjE[OF compute_confidence_cases[of e w]])
    assume "\<exists>x. fst (compute_confidence e w) = Inl x \<and> (x = OverflowError \<or> x = ExistsError)"
    then obtain x where "fst (compute_confidence e w) = Inl x" "x = OverflowError \<or> x = ExistsError"
      by blast
    then show ?thesis by simp
  next
    assume "\<exists>s1 s2 s3 s4 s5 s6 s7.
        fst (compute_confidence e w)
          = Inr (fuse [(''file_rate'', s1), (''bytes_written'', s2), (''rename_spike'', s3),
                       (''ransom_note'', s4), (''entropy'', s5), (''proc_behavior'', s6),
                       (''ml_score'', s7)],
                 [(''file_rate'', s1), (''bytes_written'', s2), (''rename_spike'', s3),
                  (''ransom_note'', s4), (''entropy'', s5), (''proc_behavior'', s6),
                  (''ml_score'', s7)])
        \<and> (0 \<le> s1 \<and> s1 \<le> 1) \<and> (0 \<le> s2 \<and> s2 \<le> 1) \<and> (0 \<le> s3 \<and> s3 \<le> 1)
        \<and> (0 \<le> s4 \<and> s4 \<le> 1) \<and> (0 \<le> s5 \<and> s5 \<le> 1) \<and> (0 \<le> s6 \<and> s6 \<le> 1)
        \<and> (0 \<le> s7 \<and> s7 \<le> 1)"
    then obtain s1 s2 s3 s4 s5 s6 s7 where cc: "fst (compute_confidence e w)
          = Inr (fuse [(''file_rate'', s1), (''bytes_written'', s2), (''rename_spike'', s3),
                       (''ransom_note'', s4), (''entropy'', s5), (''proc_behavior'', s6),
                       (''ml_score'', s7)],
                 [(''file_rate'', s1), (''bytes_written'', s2), (''rename_spike'', s3),
                  (''ransom_note'', s4), (''entropy'', s5), (''proc_behavior'', s6),
                  (''ml_score'', s7)])"
      and b: "0 \<le> s1" "s1 \<le> 1" "0 \<le> s2" "s2 \<le> 1" "0 \<le> s3" "s3 \<le> 1" "0 \<le> s4" "s4 \<le> 1"
        "0 \<le> s5" "s5 \<le> 1" "0 \<le> s6" "s6 \<le> 1" "0 \<le> s7" "s7 \<le> 1"
      by blast
    have f: "0 \<le> fuse [(''file_rate'', s1), (''bytes_written'', s2), (''rename_spike'', s3),
                     (''ransom_note'', s4), (''entropy'', s5), (''proc_behavior'', s6),
                     (''ml_score'', s7)]
       \<and> fuse [(''file_rate'', s1), (''bytes_written'', s2), (''rename_spike'', s3),
                (''ransom_note'', s4), (''entropy'', s5), (''proc_behavior'', s6),
                (''ml_score'', s7)] \<le> 1"
      using b by (intro fuse_unit) simp_all
    show ?thesis unfolding cc using b f by simp
  qed
qed

section \<open>When the detectors return\<close>

lemma window_foldl_pruned: "window (foldl pruned c ts) = window c"
  by (induction ts arbitrary: c) simp_all

lemma looked_window:
  assumes "looked w w1"
  shows "window (file_mod_counter w1) = window (file_mod_counter w)"
    and "window (rename_counter w1) = window (rename_counter w)"
  using assms unfolding looked_def by (auto simp: window_foldl_pruned)

lemma file_rate_returns:
  assumes "cutoff_ok (window (file_mod_counter w)) (clock e (ticks w))"
    and "int (length (events (file_mod_counter w))) < FLOAT_LIMIT"
  shows "\<exists>s. detect_file_rate_score e w
      = (Inr s, w\<lparr>ticks := Suc (ticks w),
                  file_mod_counter := pruned (file_mod_counter w) (clock e (ticks w))\<rparr>)"
proof -
  let ?n = "length (events (pruned (file_mod_counter w) (clock e (ticks w))))"
  have "int ?n < FLOAT_LIMIT"
    using assms(2) length_pruned[of "file_mod_counter w" "clock e (ticks w)"] by linarith
  then have "\<bar>int ?n\<bar> < FLOAT_LIMIT" by simp
  from ratio_score_small[OF this] assms(1) show ?thesis
    by (simp add: detect_file_rate_score_def file_mod_count_eq)
qed

lemma rename_returns:
  assumes "cutoff_ok (window (rename_counter w)) (clock e (ticks w))"
    and "int (length (events (rename_counter w))) < FLOAT_LIMIT"
  shows "\<exists>s. detect_rename_score e w
      = (Inr s, w\<lparr>ticks := Suc (ticks w),
                  rename_counter := pruned (rename_counter w) (clock e (ticks w))\<rparr>)"
proof -
  let ?n = "length (events (pruned (rename_counter w) (clock e (ticks w))))"
  have "int ?n < FLOAT_LIMIT"
    using assms(2) length_pruned[of "rename_counter w" "clock e (ticks w)"] by linarith
  then have "\<bar>int ?n\<bar> < FLOAT_LIMIT" by simp
  from ratio_score_small[OF this] assms(1) show ?thesis
    by (simp add: detect_rename_score_def rename_count_eq)
qed

lemma bytes_written_returns:
  assumes "int (sum_list (map snd (bytes_written_window w))) < FLOAT_LIMIT"
  shows "\<exists>s. detect_bytes_written_score w = Inr s"
proof -
  have "\<bar>int (sum_list (map snd (bytes_written_window w)))\<bar> < FLOAT_LIMIT" using assms by simp
  from ratio_score_small[OF this] show ?thesis by (simp add: detect_bytes_written_score_def)
qed

lemma ransom_note_loop_returns:
  "(\<forall>i<length ps. io_outcome e (ios w + i) = Succeeds)
   \<Longrightarrow> \<exists>s. fst (ransom_note_loop e ps w) = Inr s"
proof (induction ps arbitrary: w)
  case Nil
  then show ?case by simp
next
  case (Cons p ps)
  from Cons.prems have io: "io_outcome e (ios w) = Succeeds" by force
  have "\<forall>i<length ps. io_outcome e (ios (w\<lparr>ios := Suc (ios w)\<rparr>) + i) = Succeeds"
  proof (intro allI impI)
    fix i assume "i < length ps"
    then have "Suc i < length (p # ps)" by simp
    from Cons.prems[rule_format, OF this] show "io_outcome e (ios (w\<lparr>ios := Suc (ios w)\<rparr>) + i) = Succeeds"
      by simp
  qed
  from Cons.IH[OF this] obtain s where "fst (ransom_note_loop e ps (w\<lparr>ios := Suc (ios w)\<rparr>)) = Inr s"
    by blast
  with io show ?case by (simp add: path_exists_def io_next_def split: bool.splits)
qed

lemma tenth_returns:
  "(case thr of PyInt i \<Rightarrow> \<bar>i\<bar> < FLOAT_LIMIT | PyFloat f \<Rightarrow> True) \<Longrightarrow> \<exists>t. tenth thr = Inr t"
  by (cases thr rule: tenth.cases) (simp_all add: int_to_float_def)

lemma proc_scores_returns:
  "list_all (\<lambda>pq. length (snd pq) < 2
                  \<or> \<bar>snd (last (snd pq)) - snd (hd (snd pq))\<bar> < FLOAT_LIMIT) pw
   \<Longrightarrow> \<exists>scores. proc_scores thr pw = Inr scores"
proof (induction thr pw rule: proc_scores.induct)
  case (1 thr)
  then show ?case by simp
next
  case (2 thr pid dq rest)
  show ?case
  proof (cases "dq \<noteq> [] \<and> 2 \<le> length dq")
    case False
    then have "proc_scores thr ((pid, dq) # rest) = proc_scores thr rest" by auto
    with "2.prems" "2.IH"(1,3) False show ?thesis by (cases "dq = []") auto
  next
    case True
    with "2.prems" have "\<bar>snd (last dq) - snd (hd dq)\<bar> < FLOAT_LIMIT" by simp
    from ratio_score_small[OF this, of "PyFloat thr"] obtain s where
      s: "ratio_score (snd (last dq) - snd (hd dq)) (PyFloat thr) = Inr s" by blast
    from "2.IH"(2)[OF _ _ s] True "2.prems" obtain ss where "proc_scores thr rest = Inr ss"
      by auto
    with s True show ?thesis by simp
  qed
qed

lemma proc_behavior_returns:
  assumes "case runtime_config w BYTES_WRITTEN_THRESHOLD of
             PyInt i \<Rightarrow> \<bar>i\<bar> < FLOAT_LIMIT | PyFloat f \<Rightarrow> True"
    and "list_all (\<lambda>pq. length (snd pq) < 2
                  \<or> \<bar>snd (last (snd pq)) - snd (hd (snd pq))\<bar> < FLOAT_LIMIT) (proc_writes w)"
  shows "\<exists>s. detect_proc_behavior_score w = Inr s"
proof -
  from tenth_returns[OF assms(1)] obtain t where
    t: "tenth (runtime_config w BYTES_WRITTEN_THRESHOLD) = Inr t" by blast
  from proc_scores_returns[OF assms(2), of t] obtain scores where
    "proc_scores t (proc_writes w) = Inr scores" by blast
  with t show ?thesis by (cases scores) (simp_all add: detect_proc_behavior_score_def)
qed

lemma ml_returns:
  assumes "ml_model w = None \<or> \<not> ml_available e
     \<or> cutoff_ok (window (file_mod_counter w)) (clock e (ticks w))
       \<and> cutoff_ok (window (rename_counter w)) (clock e (Suc (ticks w)))"
  shows "\<exists>s. fst (detect_ml_score e w) = Inr s"
  using assms
  by (auto simp: detect_ml_score_def Let_def file_mod_count_eq rename_count_eq
      split: option.splits)

lemma ransom_note_loop_ticks: "ticks (snd (ransom_note_loop e ps v)) = ticks v"
proof (induction ps arbitrary: v)
  case Nil
  then show ?case by simp
next
  case (Cons q qs)
  show ?case using Cons.IH[of "v\<lparr>ios := Suc (ios v)\<rparr>"]
    by (simp add: path_exists_def io_next_def split: outcome.splits bool.splits)
qed

lemma compute_confidence_returns:
  assumes "calm e w"
  shows "\<exists>cd. fst (compute_confidence e w) = Inr cd"
proof -
  define w1 where "w1 = w\<lparr>ticks := Suc (ticks w),
               file_mod_counter := pruned (file_mod_counter w) (clock e (ticks w))\<rparr>"
  define w2 where "w2 = w1\<lparr>ticks := Suc (ticks w1),
                 rename_counter := pruned (rename_counter w1) (clock e (ticks w1))\<rparr>"
  from assms have c1: "cutoff_ok (window (file_mod_counter w)) (clock e (ticks w))"
    and c2: "cutoff_ok (window (rename_counter w)) (clock e (Suc (ticks w)))"
    and cm: "ml_model w = None \<or> \<not> ml_available e
        \<or> cutoff_ok (window (file_mod_counter w)) (clock e (Suc (Suc (ticks w))))
          \<and> cutoff_ok (window (rename_counter w)) (clock e (Suc (Suc (Suc (ticks w)))))"
    and l1: "int (length (events (file_mod_counter w))) < FLOAT_LIMIT"
    and l2: "int (length (events (rename_counter w))) < FLOAT_LIMIT"
    and l3: "int (sum_list (map snd (bytes_written_window w))) < FLOAT_LIMIT"
    and t: "case runtime_config w BYTES_WRITTEN_THRESHOLD of
             PyInt i \<Rightarrow> \<bar>i\<bar> < FLOAT_LIMIT | PyFloat f \<Rightarrow> True"
    and p: "list_all (\<lambda>pq. length (snd pq) < 2
                  \<or> \<bar>snd (last (snd pq)) - snd (hd (snd pq))\<bar> < FLOAT_LIMIT) (proc_writes w)"
    and io: "list_all (\<lambda>i. io_outcome e (ios w + i) = Succeeds)
          [0..<length (recent_modified_files w)]"
    unfolding calm_def by blast+
  from file_rate_returns[OF c1 l1] obtain s1 where d1: "detect_file_rate_score e w = (Inr s1, w1)"
    unfolding w1_def by blast
  have "\<exists>s. detect_bytes_written_score w1 = Inr s"
    using l3 by (intro bytes_written_returns) (simp add: w1_def)
  then obtain s2 where d2: "detect_bytes_written_score w1 = Inr s2" by blast
  have "\<exists>s. detect_rename_score e w1
      = (Inr s, w1\<lparr>ticks := Suc (ticks w1),
                 rename_counter := pruned (rename_counter w1) (clock e (ticks w1))\<rparr>)"
    using c2 l2 by (intro rename_returns) (simp_all add: w1_def)
  then obtain s3 where d3: "detect_rename_score e w1 = (Inr s3, w2)"
    unfolding w2_def by blast
  have f2: "recent_modified_files w2 = recent_modified_files w" "ios w2 = ios w"
    "ticks w2 = Suc (Suc (ticks w))" "runtime_config w2 = runtime_config w"
    "proc_writes w2 = proc_writes w" "ml_model w2 = ml_model w"
    "window (file_mod_counter w2) = window (file_mod_counter w)"
    "window (rename_counter w2) = window (rename_counter w)"
    by (simp_all add: w2_def w1_def)
  have "\<forall>i<length (recent_modified_files w2). io_outcome e (ios w2 + i) = Succeeds"
    using io by (simp add: list_all_iff f2)
  from ransom_note_loop_returns[OF this] obtain s4 where
    "fst (detect_ransom_note_score e w2) = Inr s4"
    unfolding detect_ransom_note_score_def by blast
  then obtain w3 where d4: "detect_ransom_note_score e w2 = (Inr s4, w3)"
    by (cases "detect_ransom_note_score e w2") simp
  have k3: "looked w2 w3" using detect_ransom_note_looked[of w2 e] d4 by simp
  have t3: "ticks w3 = Suc (Suc (ticks w))"
    using ransom_note_loop_ticks[of e "recent_modified_files w2" w2] d4
    by (simp add: detect_ransom_note_score_def f2)
  obtain s5 w4 where d5: "detect_entropy_score e w3 = (s5, w4)" by fastforce
  have w4: "w4 = w3\<lparr>ios := ios w3 + length (take 5 (recent_modified_files w3))\<rparr>"
    using detect_entropy_world[of e w3] d5 by simp
  have g3: "runtime_config w3 = runtime_config w" "proc_writes w3 = proc_writes w"
    "ml_model w3 = ml_model w"
    using k3 f2 unfolding looked_def by simp_all
  have win3: "window (file_mod_counter w3) = window (file_mod_counter w)"
    "window (rename_counter w3) = window (rename_counter w)"
    using looked_window[OF k3] f2 by simp_all
  have "\<exists>s. detect_proc_behavior_score w4 = Inr s"
    using t p by (intro proc_behavior_returns) (simp_all add: w4 g3)
  then obtain s6 where d6: "detect_proc_behavior_score w4 = Inr s6" by blast
  have "\<exists>s. fst (detect_ml_score e w4) = Inr s"
    using cm by (intro ml_returns) (simp add: w4 g3 win3 t3)
  then obtain s7 w5 where d7: "detect_ml_score e w4 = (Inr s7, w5)"
    by (cases "detect_ml_score e w4") auto
  show ?thesis
    unfolding compute_confidence_def d1 prod.case sum.case d2 d3 d4 d5 d6 d7 Let_def
    by simp
qed

text \<open>
  Claim C4, as it holds of the code. In every state of the globals and of the
  configuration, and whatever the environment does: the entropy detector returns a
  score in \<open>[0, 1]\<close>; each of the other six detectors either returns a score in
  \<open>[0, 1]\<close> or raises, \<^verbatim>\<open>OverflowError\<close> from the arithmetic of dates and floats or
  the error of \<^verbatim>\<open>Path.exists\<close>; \<^verbatim>\<open>compute_confidence\<close> either raises one of these
  or returns seven scores in \<open>[0, 1]\<close> and, as the confidence, their weighted sum
  over the sum of the weights, which is in \<open>[0, 1]\<close>. In a calm state, where the
  cutoffs of the counters are dates, the ints that are converted are within the
  float range and the looks at the file system do not fail, it returns. Finite floats
  are read as reals.
\<close>

theorem scores_and_confidence_in_unit_interval:
  "(case fst (detect_file_rate_score e w) of
      Inl x \<Rightarrow> x = OverflowError | Inr s \<Rightarrow> 0 \<le> s \<and> s \<le> 1)
   \<and> (case detect_bytes_written_score w of
        Inl x \<Rightarrow> x = OverflowError | Inr s \<Rightarrow> 0 \<le> s \<and> s \<le> 1)
   \<and> (case fst (detect_rename_score e w) of
        Inl x \<Rightarrow> x = OverflowError | Inr s \<Rightarrow> 0 \<le> s \<and> s \<le> 1)
   \<and> (case fst (detect_ransom_note_score e w) of
        Inl x \<Rightarrow> x = ExistsError | Inr s \<Rightarrow> 0 \<le> s \<and> s \<le> 1)
   \<and> (0 \<le> fst (detect_entropy_score e w) \<and> fst (detect_entropy_score e w) \<le> 1)
   \<and> (case detect_proc_behavior_score w of
        Inl x \<Rightarrow> x = OverflowError | Inr s \<Rightarrow> 0 \<le> s \<and> s \<le> 1)
   \<and> (case fst (detect_ml_score e w) of
        Inl x \<Rightarrow> x = OverflowError | Inr s \<Rightarrow> 0 \<le> s \<and> s \<le> 1)
   \<and> (case fst (compute_confidence e w) of
        Inl x \<Rightarrow> x = OverflowError \<or> x = ExistsError
      | Inr cd \<Rightarrow>
          map fst (snd cd)
            = [''file_rate'', ''bytes_written'', ''rename_spike'', ''ransom_note'', ''entropy'',
               ''proc_behavior'', ''ml_score'']
          \<and> list_all (\<lambda>d. 0 \<le> snd d \<and> snd d \<le> 1) (snd cd)
          \<and> fst cd = fuse (snd cd)
          \<and> 0 \<le> fst cd \<and> fst cd \<le> 1)
   \<and> (calm e w \<longrightarrow> (\<exists>cd. fst (compute_confidence e w) = Inr cd))"
proof -
  have r: "calm e w \<longrightarrow> (\<exists>cd. fst (compute_confidence e w) = Inr cd)"
    using compute_confidence_returns by blast
  show ?thesis
    by (rule conjI[OF file_rate_unit conjI[OF bytes_written_unit conjI[OF rename_unit
      conjI[OF ransom_note_unit conjI[OF entropy_unit conjI[OF proc_behavior_unit
      conjI[OF ml_unit conjI[OF compute_confidence_unit r]]]]]]]])
qed

section \<open>An example evaluation\<close>

lemma entropy_01: "entropy [0, 1] = 1"
  by (simp add: entropy_def log_divide)

lemma example_upper: "str_upper example_env = map upper_char"
  by (simp add: example_env_def)

lemma example_other: "other_entry example_env n p = False"
  by (simp add: example_env_def)

lemma ransom_f:
  "list_ex (\<lambda>pat. contains pat (map upper_char (path_name ''/opt/agent/demo_sandbox/f'')))
     ransom_note_patterns = False"
  by code_simp

lemma one_logged_confidence:
  "fst (compute_confidence example_env
      (one_logged\<lparr>runtime_config := default_config(CONFIDENCE_ACTION_THRESHOLD := x)\<rparr>))
   = Inr (1 / 14,
          [(''file_rate'', 0), (''bytes_written'', 0), (''rename_spike'', 0), (''ransom_note'', 0),
           (''entropy'', 1 / 2), (''proc_behavior'', 0), (''ml_score'', 0)])"
  by (simp add: compute_confidence_def one_logged_def start_world_def detect_file_rate_score_def
      file_mod_count_eq rename_count_eq cutoff_ok_def pruned_def DATETIME_MIN_def DATETIME_MAX_def
      example_clock ratio_score_def ratio_overflows_def FLOAT_LIMIT_def capped_def
      detect_bytes_written_score_def detect_rename_score_def detect_ransom_note_score_def
      path_exists_def example_other example_upper ransom_f
      detect_entropy_score_def read_file_def io_next_def example_io entropy_01 entropy_ratio_def
      detect_proc_behavior_score_def int_to_float_def detect_ml_score_def fuse_def weights_get_def
      WEIGHTS_def)

lemma one_logged_calm:
  "calm example_env (one_logged\<lparr>runtime_config := default_config(CONFIDENCE_ACTION_THRESHOLD := x)\<rparr>)"
  by (simp add: calm_def one_logged_def start_world_def cutoff_ok_def DATETIME_MIN_def
      DATETIME_MAX_def example_clock FLOAT_LIMIT_def example_io)

text \<open>
  With one readable entry of entropy 1 in the log and nothing else, the breakdown is 0
  but for the entropy score 1/2, and the confidence is 0.2 * 0.5 / 1.4.
\<close>

theorem scores_and_confidence_witness:
  "calm example_env one_logged
   \<and> fst (compute_confidence example_env one_logged)
     = Inr (1 / 14,
          [(''file_rate'', 0), (''bytes_written'', 0), (''rename_spike'', 0), (''ransom_note'', 0),
           (''entropy'', 1 / 2), (''proc_behavior'', 0), (''ml_score'', 0)])
   \<and> (\<exists>cd. fst (compute_confidence example_env one_logged) = Inr cd
        \<and> 0 \<le> fst cd \<and> fst cd \<le> 1)"
proof -
  have w: "one_logged\<lparr>runtime_config := default_config(CONFIDENCE_ACTION_THRESHOLD
      := PyFloat (Finite 0.05))\<rparr> = one_logged"
    by (simp add: one_logged_def start_world_def fun_eq_iff)
  have c: "calm example_env one_logged" using one_logged_calm[of "PyFloat (Finite 0.05)"]
    unfolding w .
  have v: "fst (compute_confidence example_env one_logged)
     = Inr (1 / 14,
          [(''file_rate'', 0), (''bytes_written'', 0), (''rename_spike'', 0), (''ransom_note'', 0),
           (''entropy'', 1 / 2), (''proc_behavior'', 0), (''ml_score'', 0)])"
    using one_logged_confidence[of "PyFloat (Finite 0.05)"] unfolding w .
  from scores_and_confidence_in_unit_interval[of example_env one_logged] c v
  show ?thesis by simp
qed

text \<open>
  Claim C4 as it is worded fails for configurations that \<^verbatim>\<open>set_rates\<close> accepts. After
  the window has been set to \<open>10^12\<close> seconds (answered with 200), the cutoff of
  \<^verbatim>\<open>count()\<close> is before the year 1 under a clock that stands in 2023: the
  \<^verbatim>\<open>file_rate\<close> detector raises \<^verbatim>\<open>OverflowError\<close>, and so does
  \<^verbatim>\<open>compute_confidence\<close>. After the bytes threshold has been set to \<open>10^400\<close>, the
  \<^verbatim>\<open>proc_behavior\<close> detector raises \<^verbatim>\<open>OverflowError\<close> at the division by 10.0. Neither
  returns a value.
\<close>

theorem detector_raises_counterexample:
  "fst (set_rates (example_env\<lparr>clock := \<lambda>n. 1700000000000000 + int n\<rparr>)
          (JObj [(''TIME_WINDOW_SECONDS'', JInt 1000000000000)]) one_logged)
     = Response200 [(''TIME_WINDOW_SECONDS'', PyInt 1000000000000)]
   \<and> fst (detect_file_rate_score (example_env\<lparr>clock := \<lambda>n. 1700000000000000 + int n\<rparr>)
        (snd (set_rates (example_env\<lparr>clock := \<lambda>n. 1700000000000000 + int n\<rparr>)
          (JObj [(''TIME_WINDOW_SECONDS'', JInt 1000000000000)]) one_logged)))
     = Inl OverflowError
   \<and> fst (compute_confidence (example_env\<lparr>clock := \<lambda>n. 1700000000000000 + int n\<rparr>)
        (snd (set_rates (example_env\<lparr>clock := \<lambda>n. 1700000000000000 + int n\<rparr>)
          (JObj [(''TIME_WINDOW_SECONDS'', JInt 1000000000000)]) one_logged)))
     = Inl OverflowError
   \<and> fst (set_rates example_env (JObj [(''BYTES_WRITTEN_THRESHOLD'', JInt (10 ^ 400))]) one_logged)
     = Response200 [(''BYTES_WRITTEN_THRESHOLD'', PyInt (10 ^ 400))]
   \<and> detect_proc_behavior_score
        (snd (set_rates example_env (JObj [(''BYTES_WRITTEN_THRESHOLD'', JInt (10 ^ 400))]) one_logged))
     = Inl OverflowError"
  by (simp add: set_rates_def key_of_def one_logged_def start_world_def new_counter_def
      timedelta_of_def TIMEDELTA_MIN_def TIMEDELTA_MAX_def respond_def
      detect_file_rate_score_def compute_confidence_def file_mod_count_eq cutoff_ok_def
      DATETIME_MIN_def DATETIME_MAX_def detect_proc_behavior_score_def int_to_float_def
      FLOAT_LIMIT_def)

section \<open>One evaluation of the agent loop\<close>





section \<open>Snapshot and alert\<close>

lemma encrypt_and_store_persisted:
  "encrypt_and_store e p w = (Inr u, w1) \<Longrightarrow> persisted e p w w1"
  unfolding encrypt_and_store_def persisted_def snapshot_dest_def
  by (auto simp: mkdir_def secrets_token_bytes_def read_file_def utcnow_def write_file_def io_next_def
      split: prod.splits bool.splits option.splits outcome.splits if_splits)

lemma snapshot_loop_append:
  "snapshot_loop e (pre @ ps) sl w
   = (case snapshot_loop e pre sl w of (sl1, w1) \<Rightarrow> snapshot_loop e ps sl1 w1)"
proof (induction pre arbitrary: sl w)
  case Nil
  then show ?case by simp
next
  case (Cons p pre)
  show ?case
    by (cases "encrypt_and_store e p w" rule: prod.exhaust[case_names Pair])
       (auto simp: Cons.IH split: sum.splits)
qed

lemma snapshot_loop_length:
  "length (fst (snapshot_loop e ps sl w)) \<le> length sl + length ps"
proof (induction ps arbitrary: sl w)
  case Nil
  then show ?case by simp
next
  case (Cons p ps)
  obtain r w1 where s: "encrypt_and_store e p w = (r, w1)" by fastforce
  show ?case
  proof (cases r)
    case (Inl err)
    with s show ?thesis using Cons.IH[of sl w1] by simp
  next
    case (Inr u)
    with s show ?thesis using Cons.IH[of "sl @ [str_of_None u]" w1] by simp
  qed
qed

lemma snapshot_step_loop:
  "snapshot_step e p (snapshot_loop e pre [] w) (snapshot_loop e (pre @ [p]) [] w)"
proof -
  obtain sl wp where l: "snapshot_loop e pre [] w = (sl, wp)" by fastforce
  obtain r w1 where s: "encrypt_and_store e p wp = (r, w1)" by fastforce
  show ?thesis
  proof (cases r)
    case (Inl err)
    with l s show ?thesis by (simp add: snapshot_loop_append snapshot_step_def)
  next
    case (Inr u)
    with s have "persisted e p wp w1" by (simp add: encrypt_and_store_persisted)
    with Inr l s show ?thesis by (simp add: snapshot_loop_append snapshot_step_def)
  qed
qed

text \<open>
  Claim C1, as it holds of the code. The snapshot step runs over the first 20 entries of
  \<^verbatim>\<open>recent_modified_files\<close> (the oldest of the log), in order. For each of them, a
  failure leaves the list of snapshots as it was; a success has read the file,
  encrypted it under the nonce drawn and written nonce and ciphertext to the backup
  directory under the file's name followed by a time stamp and \<^verbatim>\<open>.enc\<close>, and adds one
  entry to the list. The alert holds the time stamp of its construction, the
  confidence and the breakdown it was given, and that list, of at most 20 entries.
\<close>

theorem snapshot_and_alert_contract:
  assumes "snapshot_and_alert e conf dets w = (a, w')"
  shows "confidence a = conf \<and> detectors a = dets
     \<and> (\<exists>n. timestamp a = isoformat e (clock e n) @ ''Z'')
     \<and> snapshots a = fst (snapshot_loop e (take 20 (recent_modified_files w)) [] w)
     \<and> length (snapshots a) \<le> 20
     \<and> (\<forall>pre p post. take 20 (recent_modified_files w) = pre @ p # post \<longrightarrow>
          snapshot_step e p (snapshot_loop e pre [] w) (snapshot_loop e (pre @ [p]) [] w))"
proof -
  obtain sl w1 where l: "snapshot_loop e (take 20 (recent_modified_files w)) [] w = (sl, w1)"
    by fastforce
  obtain ts w2 where t: "now_ts e w1 = (ts, w2)" by fastforce
  have a: "a = \<lparr>timestamp = ts, confidence = conf, detectors = dets, snapshots = sl\<rparr>"
    using assms l t by (simp add: snapshot_and_alert_def)
  have ts: "ts = isoformat e (clock e (ticks w1)) @ ''Z''"
    using t by (simp add: now_ts_def utcnow_def)
  have len: "length sl \<le> 20"
    using snapshot_loop_length[of e "take 20 (recent_modified_files w)" "[]" w] l by simp
  show ?thesis using a ts len l snapshot_step_loop by auto
qed

lemma one_logged_store:
  "encrypt_and_store example_env ''/opt/agent/demo_sandbox/f'' one_logged
   = (Inr (),
      one_logged\<lparr>files := (files one_logged)
                   (''/opt/agent/demo_backups/f.0.enc'' \<mapsto> replicate 12 0 @ [0, 1] @ replicate 16 0),
                 ticks := 1, draws := 1, ios := 3\<rparr>)"
  by (simp add: encrypt_and_store_def one_logged_def start_world_def mkdir_def io_next_def
      example_io secrets_token_bytes_def read_file_def utcnow_def write_file_def snapshot_dest_def
      BACKUP_DIR_def joinpath_def path_name_def example_fields example_clock str_int_0)

text \<open>
  Claim C1 with the twenty most recent entries and the names of the artifacts fails.
  Twenty-one entries are in the log and only the most recent one exists: it is among
  the twenty most recent, and no snapshot is made. With a single readable entry the
  snapshot is made, and the entry of the list is the text of \<^verbatim>\<open>None\<close>, not the name
  of the artifact.
\<close>

theorem snapshot_oldest_counterexample:
  "snapshots (fst (snapshot_and_alert example_env 1 [] many_logged)) = []
   \<and> snapshots (fst (snapshot_and_alert example_env 1 [] one_logged)) = [''None'']
   \<and> length (recent_modified_files many_logged) = 21
   \<and> last (recent_modified_files many_logged) = ''/opt/agent/demo_sandbox/f21''
   \<and> files many_logged ''/opt/agent/demo_sandbox/f21'' = Some [0, 1]"
proof -
  have "snapshots (fst (snapshot_and_alert example_env 1 [] one_logged)) = [''None'']"
    by (simp add: snapshot_and_alert_def one_logged_store str_of_None_def now_ts_def utcnow_def
        one_logged_def[THEN arg_cong[where f=recent_modified_files]] split: prod.splits)
  then show ?thesis
    by (simp add: snapshot_and_alert_def many_logged_def start_world_def encrypt_and_store_def
      mkdir_def io_next_def example_io secrets_token_bytes_def read_file_def now_ts_def utcnow_def)
qed


text \<open>One readable entry in the log: its snapshot and the alert.\<close>

theorem snapshot_and_alert_witness:
  "take 20 (recent_modified_files one_logged) = [] @ ''/opt/agent/demo_sandbox/f'' # []
   \<and> snapshot_step example_env ''/opt/agent/demo_sandbox/f''
        (snapshot_loop example_env [] [] one_logged)
        (snapshot_loop example_env ([] @ [''/opt/agent/demo_sandbox/f'']) [] one_logged)
   \<and> files (snd (snapshot_loop example_env [''/opt/agent/demo_sandbox/f''] [] one_logged))
        ''/opt/agent/demo_backups/f.0.enc''
      = Some (replicate 12 0 @ [0, 1] @ replicate 16 0)
   \<and> length (snapshots (fst (snapshot_and_alert example_env 1 [] one_logged))) = 1
   \<and> confidence (fst (snapshot_and_alert example_env 1 [] one_logged)) = 1"
proof -
  have l: "take 20 (recent_modified_files one_logged) = [] @ ''/opt/agent/demo_sandbox/f'' # []"
    by (simp add: one_logged_def)
  have eq: "snapshot_and_alert example_env 1 [] one_logged
      = (fst (snapshot_and_alert example_env 1 [] one_logged),
         snd (snapshot_and_alert example_env 1 [] one_logged))"
    by simp
  from snapshot_and_alert_contract[OF eq] l
  have c: "confidence (fst (snapshot_and_alert example_env 1 [] one_logged)) = 1"
    and s: "snapshots (fst (snapshot_and_alert example_env 1 [] one_logged))
      = fst (snapshot_loop example_env (take 20 (recent_modified_files one_logged)) [] one_logged)"
    and st: "snapshot_step example_env ''/opt/agent/demo_sandbox/f''
        (snapshot_loop example_env [] [] one_logged)
        (snapshot_loop example_env ([] @ [''/opt/agent/demo_sandbox/f'']) [] one_logged)"
    by blast+
  have f: "files (snd (snapshot_loop example_env [''/opt/agent/demo_sandbox/f''] [] one_logged))
        ''/opt/agent/demo_backups/f.0.enc''
      = Some (replicate 12 0 @ [0, 1] @ replicate 16 0)"
    by (simp add: one_logged_store)
  have n: "length (snapshots (fst (snapshot_and_alert example_env 1 [] one_logged))) = 1"
    unfolding s by (simp add: one_logged_store one_logged_def[THEN arg_cong[where f=recent_modified_files]])
  from l st f n c show ?thesis by blast
qed

section \<open>The verdict of the URL classifier\<close>
























end
